theory Spec2Isabelle
  imports Complex_Main "HOL-Library.Word" "HOL-Library.Sublist" "HOL-Library.Log_Nat"
begin

section \<open>Exceptions, floats and the external world\<close>

text \<open>
  The Python exceptions the source can meet. \<open>KeyboardInterrupt\<close> derives from
  \<open>BaseException\<close> only, so a handler \<^verbatim>\<open>except Exception\<close> lets it pass; every other
  constructor stands for a subclass of \<open>Exception\<close>. \<open>OtherException\<close> is any exception a
  collaborator (data loader, model, metric function, logger, file system) raises.
\<close>

datatype exn =
    ValueError string
  | UnboundLocalError string
  | ZeroDivisionError
  | StopIteration
  | KeyboardInterrupt
  | OtherException string

fun is_Exception :: "exn \<Rightarrow> bool" where
  "is_Exception KeyboardInterrupt = False"
| "is_Exception _ = True"

text \<open>
  A Python float as far as comparison is concerned: the finite values are rationals,
  and every comparison with NaN is false.
\<close>

datatype pyfloat = NaN | NegInf | Fin rat | PosInf

fun py_lt :: "pyfloat \<Rightarrow> pyfloat \<Rightarrow> bool" where
  "py_lt NaN _ = False"
| "py_lt _ NaN = False"
| "py_lt NegInf NegInf = False"
| "py_lt NegInf _ = True"
| "py_lt _ NegInf = False"
| "py_lt PosInf _ = False"
| "py_lt (Fin x) PosInf = True"
| "py_lt (Fin x) (Fin y) = (x < y)"

definition py_gt :: "pyfloat \<Rightarrow> pyfloat \<Rightarrow> bool" where
  "py_gt x y = py_lt y x"

text \<open>
  What the program does to the outside world, in order: each constructor is one call of
  a collaborator that returned, or one line printed; the argument is the epoch.
  \<^item> \<open>SetupExperiment\<close>, \<open>SetupModel\<close>: the inherited \<^verbatim>\<open>setup_experiment()\<close> and
    \<^verbatim>\<open>setup_model()\<close>; \<open>GetDatasets\<close>: building the datasets from the directories;
  \<^item> \<open>FetchValidBatch\<close>: \<^verbatim>\<open>next(iter(dl))\<close> on the first validation loader;
    \<open>ApplyModel\<close>: \<^verbatim>\<open>model(imgs.to(device))\<close>; \<open>ApplyPerfFunc i\<close>: the call of the
    \<open>i\<close>-th metric function;
  \<^item> \<open>TrainOneEpoch\<close>, \<open>ValidateOneEpoch\<close>: the two passes of the runner;
    \<open>EndEpoch\<close>: \<^verbatim>\<open>logger.end_epoch()\<close> and reading the last row;
    \<open>SetPostfix\<close>: \<^verbatim>\<open>pbar.set_postfix(...)\<close>;
    \<open>SaveLogCsv\<close>: \<^verbatim>\<open>log.csv\<close>; \<open>SavePlotsPng\<close>: \<^verbatim>\<open>plots.png\<close>;
    \<open>WandbLog\<close>: \<^verbatim>\<open>wandb.log(...)\<close>;
    \<open>SaveCheckpoint\<close>: \<^verbatim>\<open>state_dict()\<close> saved to \<^verbatim>\<open>checkpoint.pt\<close>;
    \<open>SaveCheckpointCopy\<close>: \<^verbatim>\<open>models/checkpoint_<epoch>.pt\<close>;
    \<open>SaveValImgs\<close>: \<^verbatim>\<open>predict_and_save_val_imgs(...)\<close>;
    \<open>SaveBestModel\<close>: \<^verbatim>\<open>best_model.pt\<close>;
  \<^item> \<open>WandbFinish\<close>: \<^verbatim>\<open>wandb.finish()\<close>; \<open>WriteConfigYaml\<close>: \<^verbatim>\<open>config.yaml\<close> with
    the end timestamp.
  A call that raises leaves no event: what an interrupted call has half done (a file
  partly written) is below this model.
\<close>

datatype event =
    Print string
  | SetupExperiment
  | GetDatasets
  | SetupModel
  | FetchValidBatch
  | ApplyModel
  | ApplyPerfFunc nat
  | TrainOneEpoch nat
  | ValidateOneEpoch nat
  | EndEpoch nat
  | SetPostfix nat
  | SaveLogCsv nat
  | SavePlotsPng nat
  | WandbLog nat
  | SaveCheckpoint nat
  | SaveCheckpointCopy nat
  | SaveValImgs nat
  | SaveBestModel nat
  | WandbFinish
  | WriteConfigYaml

text \<open>
  The collaborators are not part of the source: \<open>raises\<close> says which of their calls
  raises what, and \<open>val_metric_at\<close> is the value the logger holds for the configured
  validation metric in the row of an epoch.
\<close>

record env =
  raises :: "event \<Rightarrow> exn option"
  val_metric_at :: "nat \<Rightarrow> pyfloat"

type_synonym 'a prog = "event list \<Rightarrow> (exn + 'a) \<times> event list"

definition ret :: "'a \<Rightarrow> 'a prog" where
  "ret x out = (Inr x, out)"

definition raise :: "exn \<Rightarrow> 'a prog" where
  "raise e out = (Inl e, out)"

definition and_then :: "'a prog \<Rightarrow> ('a \<Rightarrow> 'b prog) \<Rightarrow> 'b prog" where
  "and_then m f out = (case m out of (Inl e, out') \<Rightarrow> (Inl e, out') | (Inr x, out') \<Rightarrow> f x out')"

definition print :: "string \<Rightarrow> unit prog" where
  "print msg out = (Inr (), out @ [Print msg])"

definition call :: "env \<Rightarrow> event \<Rightarrow> unit prog" where
  "call E ev out = (case raises E ev of Some e \<Rightarrow> (Inl e, out) | None \<Rightarrow> (Inr (), out @ [ev]))"

definition when_do :: "bool \<Rightarrow> unit prog \<Rightarrow> unit prog" where
  "when_do b m = (if b then m else ret ())"

section \<open>Datasets: \<open>get_datasets\<close>\<close>

datatype path = Path string | Div path string

record ValidTransforms =
  resize_size :: "(nat \<times> nat) option"
  resize_target :: bool

text \<open>
  The two dataset classes with the arguments the source passes:
  \<open>VessMAP path keepdim transforms\<close> and
  \<open>DRIVE path split channels keepdim ignore_index transforms\<close>.
\<close>

datatype dataset =
    VessMAP path bool ValidTransforms
  | DRIVE path string string bool int ValidTransforms

fun dataset_root :: "dataset \<Rightarrow> path" where
  "dataset_root (VessMAP r _ _) = r"
| "dataset_root (DRIVE r _ _ _ _ _) = r"

definition get_datasets :: "string \<Rightarrow> dataset \<times> (string \<times> dataset) list \<times> int" where
  "get_datasets datasets_root =
    (let ignore_index = 2;
         root_vesshape = Div (Path datasets_root) ''VessShape'';
         root_drive = Div (Path datasets_root) ''DRIVE'';
         root_vessmap = Div (Path datasets_root) ''VessMAP'';
         transforms_256 = \<lparr>resize_size = Some (256, 256), resize_target = True\<rparr>;
         transforms_512 = \<lparr>resize_size = Some (512, 512), resize_target = True\<rparr>;
         ds_train_vessshape = VessMAP root_vessmap True transforms_256;
         ds_valid_vessshape = VessMAP root_vessmap True transforms_256;
         ds_valid_drive = DRIVE root_drive ''test'' ''gray'' True ignore_index transforms_512;
         ds_valid_vessmap = VessMAP root_vessmap True transforms_256;
         ds_valids = [(''VessShape'', ds_valid_vessshape),
                      (''DRIVE'', ds_valid_drive),
                      (''VessMAP'', ds_valid_vessmap)]
     in (ds_train_vessshape, ds_valids, ignore_index))"

section \<open>The validation pass: \<open>MultiModuleRunner.validate_one_epoch\<close>\<close>

text \<open>
  Tensors are one type \<open>'x\<close>. The runner holds the model, the loss, the metric functions
  (each returns a dictionary of named values), and \<open>dl_valid\<close>, the dictionary from a
  dataset's name to its data loader; a loader built with \<^verbatim>\<open>shuffle=False\<close> is the list of
  its batches in the dataset's order. \<open>shape0\<close> is \<^verbatim>\<open>imgs.shape[0]\<close>. The profiler only
  measures time and is left out.
\<close>

record 'x MultiModuleRunner =
  model :: "'x \<Rightarrow> 'x"
  loss_func :: "'x \<Rightarrow> 'x \<Rightarrow> 'x"
  perf_funcs :: "('x \<Rightarrow> 'x \<Rightarrow> (string \<times> 'x) list) list"
  dl_valid :: "(string \<times> ('x \<times> 'x) list) list"
  shape0 :: "'x \<Rightarrow> nat"

text \<open>One call \<^verbatim>\<open>logger.log(epoch, batch_idx, name, value, size)\<close>.\<close>

type_synonym 'x log_entry = "nat \<times> nat \<times> string \<times> 'x \<times> nat"

definition log_results ::
  "nat \<Rightarrow> nat \<Rightarrow> string \<Rightarrow> nat \<Rightarrow> 'x log_entry list \<Rightarrow> (string \<times> 'x) list \<Rightarrow> 'x log_entry list" where
  "log_results epoch batch_idx ds_name sz lg results =
     foldl (\<lambda>lg (name, v). lg @ [(epoch, batch_idx, name @ '' '' @ ds_name, v, sz)]) lg results"

definition validate_batch ::
  "'x MultiModuleRunner \<Rightarrow> nat \<Rightarrow> string \<Rightarrow> nat \<Rightarrow> 'x \<times> 'x \<Rightarrow> 'x log_entry list \<Rightarrow> 'x log_entry list" where
  "validate_batch self epoch ds_name batch_idx batch lg =
     (case batch of (imgs, targets) \<Rightarrow>
        let scores = model self imgs;
            loss = loss_func self scores targets;
            lg1 = lg @ [(epoch, batch_idx, ''Val loss '' @ ds_name, loss, shape0 self imgs)]
        in foldl (\<lambda>lg perf_func.
                    log_results epoch batch_idx ds_name (shape0 self imgs) lg (perf_func scores targets))
             lg1 (perf_funcs self))"

text \<open>
  The inner loop \<^verbatim>\<open>for batch_idx in pbar\<close>: \<open>pbar\<close> is the list of indices the
  progress bar yields, \<open>dl_iter\<close> what the loader's iterator has left, and \<^verbatim>\<open>next\<close> on an
  iterator with nothing left raises \<open>StopIteration\<close>.
\<close>

fun validate_loader ::
  "'x MultiModuleRunner \<Rightarrow> nat \<Rightarrow> string \<Rightarrow> nat list \<Rightarrow> ('x \<times> 'x) list \<Rightarrow> 'x log_entry list
     \<Rightarrow> (exn + unit) \<times> 'x log_entry list" where
  "validate_loader self epoch ds_name [] dl_iter lg = (Inr (), lg)"
| "validate_loader self epoch ds_name (batch_idx # pbar) [] lg = (Inl StopIteration, lg)"
| "validate_loader self epoch ds_name (batch_idx # pbar) (batch # dl_iter) lg =
     validate_loader self epoch ds_name pbar dl_iter
       (validate_batch self epoch ds_name batch_idx batch lg)"

text \<open>
  The outer loop \<^verbatim>\<open>for ds_name, dl_valid in self.dl_valid.items()\<close>. The progress bar of
  every dataset is \<^verbatim>\<open>range(len(self.dl_valid))\<close>: the length of the dictionary.
\<close>

fun validate_items ::
  "'x MultiModuleRunner \<Rightarrow> nat \<Rightarrow> (string \<times> ('x \<times> 'x) list) list \<Rightarrow> 'x log_entry list
     \<Rightarrow> (exn + unit) \<times> 'x log_entry list" where
  "validate_items self epoch [] lg = (Inr (), lg)"
| "validate_items self epoch ((ds_name, dl) # items) lg =
     (case validate_loader self epoch ds_name [0..<length (dl_valid self)] dl lg of
        (Inl e, lg') \<Rightarrow> (Inl e, lg')
      | (Inr _, lg') \<Rightarrow> validate_items self epoch items lg')"

definition validate_one_epoch ::
  "'x MultiModuleRunner \<Rightarrow> nat \<Rightarrow> 'x log_entry list \<Rightarrow> (exn + unit) \<times> 'x log_entry list" where
  "validate_one_epoch self epoch lg = validate_items self epoch (dl_valid self) lg"

section \<open>The multiplicative augmentation: \<open>generate_multiplicative\<close>\<close>

text \<open>
  A double is the rational number it denotes. \<open>float64 x\<close> is the double nearest to \<open>x\<close>,
  ties to the even significand: 53 significant bits, and an exponent not below \<open>-1022\<close>
  (below it the doubles are the multiples of \<open>2 powi (- 1074)\<close>). \<open>expo x\<close> is the
  exponent of a positive \<open>x\<close>: \<open>2 powi (expo x) \<le> x < 2 powi (expo x + 1)\<close>. An operation
  of the source on doubles is the exact operation followed by \<open>float64\<close>, and a decimal
  literal such as \<^verbatim>\<open>0.7\<close> stands for \<open>float64\<close> of its value. A magnitude of \<open>2 ^ 1024\<close> or
  more is not a finite double.
\<close>

definition expo :: "rat \<Rightarrow> int" where
  "expo x = (case quotient_of x of (n, d) \<Rightarrow>
               let k = bitlen n - bitlen d in if 2 powi k \<le> x then k else k - 1)"

definition round_half_even :: "rat \<Rightarrow> int" where
  "round_half_even q =
     (let f = \<lfloor>q\<rfloor>; r = q - of_int f
      in if r < 1/2 then f else if 1/2 < r then f + 1 else if even f then f else f + 1)"

definition float64 :: "rat \<Rightarrow> rat" where
  "float64 x =
     (if x = 0 then 0
      else let u = 2 powi (max (expo \<bar>x\<bar>) (- 1022) - 52)
           in sgn x * of_int (round_half_even (\<bar>x\<bar> / u)) * u)"







section \<open>The configuration\<close>

text \<open>
  The options of the configuration object that decide the control flow of the trainer.
  \<open>patience\<close> is \<^verbatim>\<open>None\<close> or an integer; \<open>copy_model_every\<close> is an integer, and 0 is
  false in \<^verbatim>\<open>args.copy_model_every and ...\<close>.
\<close>

record args =
  num_epochs :: int
  optimizer :: string
  loss_function :: string
  maximize_validation_metric :: bool
  patience :: "int option"
  validate_every :: int
  log_wandb :: bool
  copy_model_every :: int
  save_val_imgs :: bool
  profile :: bool

section \<open>Setting up: \<open>MultiTrainer.__init__\<close>\<close>

text \<open>
  \<open>setup_dataset\<close>: the datasets come from \<open>get_datasets\<close>, then the loss is chosen
  by name.
\<close>

definition setup_dataset :: "env \<Rightarrow> args \<Rightarrow> unit prog" where
  "setup_dataset E a =
     and_then (call E GetDatasets) (\<lambda>_.
     if loss_function a = ''cross_entropy'' then ret ()
     else raise (ValueError (''Loss function '' @ loss_function a @ '' not recognized'')))"

text \<open>
  The list \<open>perf_funcs\<close> that \<open>setup_dataset\<close> builds has one element, the wrapped
  confusion-matrix metrics.
\<close>

definition num_perf_funcs :: nat where
  "num_perf_funcs = 1"

text \<open>
  One sanity check of \<open>setup_training\<close>:
  \<^verbatim>\<open>try: body  except Exception as e: print(msg); raise e\<close>.
\<close>

definition sanity_try :: "string \<Rightarrow> unit prog \<Rightarrow> unit prog" where
  "sanity_try msg body out =
     (case body out of
        (Inl e, out') \<Rightarrow> if is_Exception e then (Inl e, out' @ [Print msg]) else (Inl e, out')
      | (Inr x, out') \<Rightarrow> (Inr x, out'))"

text \<open>\<^verbatim>\<open>for perf_func in module_runner.perf_funcs: perf_func(scores, targets.to(device))\<close>\<close>

fun apply_perf_funcs :: "env \<Rightarrow> nat list \<Rightarrow> unit prog" where
  "apply_perf_funcs E [] = ret ()"
| "apply_perf_funcs E (i # rest) = and_then (call E (ApplyPerfFunc i)) (\<lambda>_. apply_perf_funcs E rest)"

datatype optim = SGD | Adam | AdamW

text \<open>
  The chain \<^verbatim>\<open>if optimizer=="sgd": ... elif optimizer=="adam": ... elif optimizer=="adamw": ...\<close>
  has no \<^verbatim>\<open>else\<close>: with another name the local variable \<open>optim\<close> stays unbound
  (\<open>None\<close> here).
\<close>

definition select_optim :: "string \<Rightarrow> optim option" where
  "select_optim name =
     (if name = ''sgd'' then Some SGD
      else if name = ''adam'' then Some Adam
      else if name = ''adamw'' then Some AdamW
      else None)"

text \<open>
  \<open>setup_training\<close>: the three sanity checks, the optimizer, the scheduler (the first
  use of \<open>optim\<close>: an unbound local raises \<open>UnboundLocalError\<close>), then the override of
  \<open>num_epochs\<close> under profiling. It returns the configuration it leaves behind. Building
  the loaders, the scheduler, the scaler and the profiler has no part in the claims and
  is taken to return.
\<close>

definition setup_training :: "env \<Rightarrow> args \<Rightarrow> args prog" where
  "setup_training E a =
     and_then (sanity_try ''The following problem was detected on the validation dataloader:''
                 (call E FetchValidBatch)) (\<lambda>_.
     and_then (sanity_try ''The following error happened when applying the model to the validation batch:''
                 (call E ApplyModel)) (\<lambda>_.
     and_then (sanity_try ''The following error happened when applying the performance functions:''
                 (apply_perf_funcs E [0..<num_perf_funcs])) (\<lambda>_.
     (case select_optim (optimizer a) of
        None \<Rightarrow> raise (UnboundLocalError ''optim'')
      | Some optim \<Rightarrow> ret (if profile a then a\<lparr>num_epochs := 2\<rparr> else a)))))"

definition MultiTrainer_init :: "env \<Rightarrow> args \<Rightarrow> args prog" where
  "MultiTrainer_init E a =
     and_then (print ''Setting up the experiment...'') (\<lambda>_.
     and_then (call E SetupExperiment) (\<lambda>_.
     and_then (setup_dataset E a) (\<lambda>_.
     and_then (call E SetupModel) (\<lambda>_.
     and_then (setup_training E a) (\<lambda>a'.
     and_then (print ''Done setting up.'') (\<lambda>_.
     ret a'))))))"

section \<open>The training loop: \<open>MultiTrainer.fit\<close>\<close>

datatype ctrl = Continue | Break

text \<open>The two local variables of \<open>fit\<close> that the loop updates.\<close>

record locals =
  best_val_metric :: pyfloat
  epochs_without_improvement :: int

definition compare :: "args \<Rightarrow> pyfloat \<Rightarrow> pyfloat \<Rightarrow> bool" where
  "compare a = (if maximize_validation_metric a then py_gt else py_lt)"

definition initial_locals :: "args \<Rightarrow> locals" where
  "initial_locals a =
     \<lparr>best_val_metric = (if maximize_validation_metric a then NegInf else PosInf),
      epochs_without_improvement = 0\<rparr>"

text \<open>
  \<^verbatim>\<open>validate = epoch==0 or epoch==args.num_epochs-1 or epoch%args.validate_every==0\<close>:
  \<^verbatim>\<open>or\<close> evaluates its right operand only when the left one is false, and \<^verbatim>\<open>%\<close> by zero
  raises.
\<close>

definition validate_due :: "args \<Rightarrow> nat \<Rightarrow> bool prog" where
  "validate_due a epoch =
     (if epoch = 0 then ret True
      else if int epoch = num_epochs a - 1 then ret True
      else if validate_every a = 0 then raise ZeroDivisionError
      else ret (int epoch mod validate_every a = 0))"

text \<open>\<^verbatim>\<open>args.copy_model_every and epoch%args.copy_model_every==0\<close>\<close>

definition copy_due :: "args \<Rightarrow> nat \<Rightarrow> bool" where
  "copy_due a epoch = (copy_model_every a \<noteq> 0 \<and> int epoch mod copy_model_every a = 0)"

text \<open>
  The check for improvement at the end of a validated epoch. The metric was already read
  from the same row when the progress bar was set, so reading it here does not raise.
\<close>

definition check_improvement :: "env \<Rightarrow> args \<Rightarrow> nat \<Rightarrow> locals \<Rightarrow> (ctrl \<times> locals) prog" where
  "check_improvement E a epoch loc =
     (let val_metric = val_metric_at E epoch
      in if compare a val_metric (best_val_metric loc)
         then and_then (call E (SaveBestModel epoch)) (\<lambda>_.
                ret (Continue, \<lparr>best_val_metric = val_metric, epochs_without_improvement = 0\<rparr>))
         else (let n = epochs_without_improvement loc + 1
               in ret (if (case patience a of None \<Rightarrow> False | Some p \<Rightarrow> n > p) then Break else Continue,
                       loc\<lparr>epochs_without_improvement := n\<rparr>)))"

text \<open>The body of \<^verbatim>\<open>for epoch in pbar\<close>, one call after the other.\<close>

definition fit_body :: "env \<Rightarrow> args \<Rightarrow> nat \<Rightarrow> locals \<Rightarrow> (ctrl \<times> locals) prog" where
  "fit_body E a epoch loc =
     and_then (call E (TrainOneEpoch epoch)) (\<lambda>_.
     and_then (validate_due a epoch) (\<lambda>validate.
     and_then (when_do validate (call E (ValidateOneEpoch epoch))) (\<lambda>_.
     and_then (call E (EndEpoch epoch)) (\<lambda>_.
     and_then (call E (SetPostfix epoch)) (\<lambda>_.
     and_then (call E (SaveLogCsv epoch)) (\<lambda>_.
     and_then (call E (SavePlotsPng epoch)) (\<lambda>_.
     and_then (when_do (log_wandb a) (call E (WandbLog epoch))) (\<lambda>_.
     and_then (call E (SaveCheckpoint epoch)) (\<lambda>_.
     and_then (when_do (copy_due a epoch) (call E (SaveCheckpointCopy epoch))) (\<lambda>_.
     if validate
     then and_then (when_do (save_val_imgs a) (call E (SaveValImgs epoch))) (\<lambda>_.
            check_improvement E a epoch loc)
     else ret (Continue, loc)))))))))))"

fun fit_loop :: "env \<Rightarrow> args \<Rightarrow> nat list \<Rightarrow> locals \<Rightarrow> unit prog" where
  "fit_loop E a [] loc out = (Inr (), out)"
| "fit_loop E a (epoch # pbar) loc out =
     (case fit_body E a epoch loc out of
        (Inl e, out') \<Rightarrow> (Inl e, out')
      | (Inr (Break, loc'), out') \<Rightarrow> (Inr (), out')
      | (Inr (Continue, loc'), out') \<Rightarrow> fit_loop E a pbar loc' out')"

text \<open>\<^verbatim>\<open>try: ... except KeyboardInterrupt: pass\<close>\<close>

definition except_KeyboardInterrupt :: "unit prog \<Rightarrow> unit prog" where
  "except_KeyboardInterrupt body out =
     (case body out of
        (Inl e, out') \<Rightarrow> if e = KeyboardInterrupt then (Inr (), out') else (Inl e, out')
      | (Inr x, out') \<Rightarrow> (Inr x, out'))"

text \<open>What \<open>fit\<close> does after the loop.\<close>

definition teardown :: "env \<Rightarrow> args \<Rightarrow> unit prog" where
  "teardown E a =
     and_then (when_do (log_wandb a) (call E WandbFinish)) (\<lambda>_.
     and_then (print ''Training has finished'') (\<lambda>_.
     call E WriteConfigYaml))"

definition fit :: "env \<Rightarrow> args \<Rightarrow> unit prog" where
  "fit E a =
     and_then (print ''Training has started'') (\<lambda>_.
     and_then (except_KeyboardInterrupt
                 (fit_loop E a [0..<nat (num_epochs a)] (initial_locals a))) (\<lambda>_.
     teardown E a))"

text \<open>\<^verbatim>\<open>MultiTrainer().fit()\<close>\<close>

definition main :: "env \<Rightarrow> args \<Rightarrow> unit prog" where
  "main E a = and_then (MultiTrainer_init E a) (\<lambda>a'. fit E a')"

section \<open>Notions used to state the properties\<close>

text \<open>The epoch an event belongs to; the events of setting up and of tearing down have none.\<close>

fun epoch_of :: "event \<Rightarrow> nat option" where
  "epoch_of (TrainOneEpoch k) = Some k"
| "epoch_of (ValidateOneEpoch k) = Some k"
| "epoch_of (EndEpoch k) = Some k"
| "epoch_of (SetPostfix k) = Some k"
| "epoch_of (SaveLogCsv k) = Some k"
| "epoch_of (SavePlotsPng k) = Some k"
| "epoch_of (WandbLog k) = Some k"
| "epoch_of (SaveCheckpoint k) = Some k"
| "epoch_of (SaveCheckpointCopy k) = Some k"
| "epoch_of (SaveValImgs k) = Some k"
| "epoch_of (SaveBestModel k) = Some k"
| "epoch_of _ = None"

text \<open>The epochs whose training pass ran, in order.\<close>

fun trained :: "event list \<Rightarrow> nat list" where
  "trained [] = []"
| "trained (TrainOneEpoch epoch # evs) = epoch # trained evs"
| "trained (_ # evs) = trained evs"

text \<open>
  The cadence as the specification words it: epoch 0, the final epoch, and every multiple
  of \<open>validate_every\<close>.
\<close>

definition validated :: "args \<Rightarrow> nat \<Rightarrow> bool" where
  "validated a e = (e = 0 \<or> int e = num_epochs a - 1 \<or> validate_every a dvd int e)"

text \<open>
  Strict improvement as the specification words it: greater-than when maximizing,
  less-than otherwise; \<open>worst\<close> is the value every first metric improves on.
\<close>

definition better :: "args \<Rightarrow> pyfloat \<Rightarrow> pyfloat \<Rightarrow> bool" where
  "better a x y = (if maximize_validation_metric a then py_gt x y else py_lt x y)"

definition worst :: "args \<Rightarrow> pyfloat" where
  "worst a = (if maximize_validation_metric a then NegInf else PosInf)"

text \<open>
  The metric of epoch \<open>e\<close> strictly improves on the best value seen so far: on the
  starting value and on the metric of every earlier validated epoch (a NaN is never a
  best value).
\<close>

definition improves :: "env \<Rightarrow> args \<Rightarrow> nat \<Rightarrow> bool" where
  "improves E a e =
     (better a (val_metric_at E e) (worst a)
      \<and> (\<forall>j<e. validated a j \<and> val_metric_at E j \<noteq> NaN
                \<longrightarrow> better a (val_metric_at E e) (val_metric_at E j)))"

text \<open>
  The events of an epoch that runs to its end, given whether its metric improved; and
  the locals and the control decision it leaves.
\<close>

definition completed_events :: "args \<Rightarrow> nat \<Rightarrow> bool \<Rightarrow> event list" where
  "completed_events a k improved =
     [TrainOneEpoch k] @ (if validated a k then [ValidateOneEpoch k] else [])
     @ [EndEpoch k, SetPostfix k, SaveLogCsv k, SavePlotsPng k]
     @ (if log_wandb a then [WandbLog k] else [])
     @ [SaveCheckpoint k]
     @ (if copy_due a k then [SaveCheckpointCopy k] else [])
     @ (if validated a k
        then (if save_val_imgs a then [SaveValImgs k] else []) @ (if improved then [SaveBestModel k] else [])
        else [])"

definition next_locals :: "env \<Rightarrow> args \<Rightarrow> nat \<Rightarrow> locals \<Rightarrow> locals" where
  "next_locals E a k loc =
     (if validated a k
      then (if compare a (val_metric_at E k) (best_val_metric loc)
            then \<lparr>best_val_metric = val_metric_at E k, epochs_without_improvement = 0\<rparr>
            else loc\<lparr>epochs_without_improvement := epochs_without_improvement loc + 1\<rparr>)
      else loc)"

definition next_ctrl :: "env \<Rightarrow> args \<Rightarrow> nat \<Rightarrow> locals \<Rightarrow> ctrl" where
  "next_ctrl E a k loc =
     (if validated a k \<and> \<not> compare a (val_metric_at E k) (best_val_metric loc)
         \<and> (case patience a of None \<Rightarrow> False | Some p \<Rightarrow> epochs_without_improvement loc + 1 > p)
      then Break else Continue)"

text \<open>
  \<open>reach E a k\<close> is the state in which the loop of \<open>fit\<close> enters epoch \<open>k\<close>: the locals and
  the events so far; \<open>None\<close> when the loop has ended before.
\<close>

fun reach :: "env \<Rightarrow> args \<Rightarrow> nat \<Rightarrow> (locals \<times> event list) option" where
  "reach E a 0 = Some (initial_locals a, [Print ''Training has started''])"
| "reach E a (Suc k) =
     (case reach E a k of
        None \<Rightarrow> None
      | Some (loc, out) \<Rightarrow>
          (case fit_body E a k loc out of
             (Inr (Continue, loc'), out') \<Rightarrow> Some (loc', out')
           | (Inr (Break, loc'), out') \<Rightarrow> None
           | (Inl e, out') \<Rightarrow> None))"

text \<open>Epoch \<open>e\<close> is entered and runs to its end without an exception.\<close>

definition completes :: "env \<Rightarrow> args \<Rightarrow> nat \<Rightarrow> bool" where
  "completes E a e =
     (int e < num_epochs a \<and>
      (case reach E a e of
         None \<Rightarrow> False
       | Some (loc, out) \<Rightarrow> (case fit_body E a e loc out of (Inr _, _) \<Rightarrow> True | (Inl _, _) \<Rightarrow> False)))"

text \<open>No call of epoch \<open>k\<close> raises.\<close>

definition quiet :: "env \<Rightarrow> nat \<Rightarrow> bool" where
  "quiet E k = (\<forall>ev. epoch_of ev = Some k \<longrightarrow> raises E ev = None)"

text \<open>The three stages of the sanity check, their calls and the line printed for each.\<close>

datatype stage = Dataloader | Model | MetricFunction

fun stage_call :: "stage \<Rightarrow> event" where
  "stage_call Dataloader = FetchValidBatch"
| "stage_call Model = ApplyModel"
| "stage_call MetricFunction = ApplyPerfFunc 0"

fun stage_message :: "stage \<Rightarrow> string" where
  "stage_message Dataloader = ''The following problem was detected on the validation dataloader:''"
| "stage_message Model = ''The following error happened when applying the model to the validation batch:''"
| "stage_message MetricFunction = ''The following error happened when applying the performance functions:''"

fun stages_before :: "stage \<Rightarrow> stage list" where
  "stages_before Dataloader = []"
| "stages_before Model = [Dataloader]"
| "stages_before MetricFunction = [Dataloader, Model]"

section \<open>Proof tools\<close>

text \<open>
  \<open>step_of m A V\<close>: when \<open>m\<close> returns it has appended exactly \<open>A\<close> and its value satisfies
  \<open>V\<close>; when it raises it has appended a prefix of \<open>A\<close>.
\<close>

definition step_of :: "'a prog \<Rightarrow> event list \<Rightarrow> ('a \<Rightarrow> bool) \<Rightarrow> bool" where
  "step_of m A V =
     (\<forall>out r out'. m out = (r, out') \<longrightarrow>
        (case r of Inr x \<Rightarrow> out' = out @ A \<and> V x
                 | Inl _ \<Rightarrow> (\<exists>p. prefix p A \<and> out' = out @ p)))"

text \<open>
  \<open>stops_at E m A\<close>: when \<open>m\<close> raises \<open>KeyboardInterrupt\<close>, it was raised by a call \<open>ev\<close> of
  \<open>A\<close>, and \<open>m\<close> has appended exactly the calls of \<open>A\<close> before \<open>ev\<close>.
\<close>

definition stops_at :: "env \<Rightarrow> 'a prog \<Rightarrow> event list \<Rightarrow> bool" where
  "stops_at E m A =
     (\<forall>out out'. m out = (Inl KeyboardInterrupt, out') \<longrightarrow>
        (\<exists>pre ev post. A = pre @ ev # post \<and> raises E ev = Some KeyboardInterrupt
                       \<and> out' = out @ pre))"

definition succeeds :: "'a prog \<Rightarrow> bool" where
  "succeeds m = (\<forall>out. \<exists>x out'. m out = (Inr x, out'))"

definition silent :: "'a prog \<Rightarrow> bool" where
  "silent m = (\<forall>out r out'. m out = (r, out') \<longrightarrow> (\<exists>evs. out' = out @ evs \<and> trained evs = []))"

definition cadence_inv :: "args \<Rightarrow> nat \<Rightarrow> event list \<Rightarrow> bool" where
  "cadence_inv a k tr =
     ((\<forall>ev \<in> set tr. \<forall>j. epoch_of ev = Some j \<longrightarrow> j < k)
      \<and> (\<forall>e. EndEpoch e \<in> set tr \<longrightarrow>
             int e < num_epochs a \<and> (ValidateOneEpoch e \<in> set tr \<longleftrightarrow> validated a e)))"

definition best_inv :: "env \<Rightarrow> args \<Rightarrow> nat \<Rightarrow> pyfloat \<Rightarrow> bool" where
  "best_inv E a k b =
     (b \<noteq> NaN
      \<and> (b = worst a \<or> (\<exists>j<k. validated a j \<and> b = val_metric_at E j))
      \<and> (\<forall>j<k. validated a j \<longrightarrow> \<not> compare a (val_metric_at E j) b))"

section \<open>Example inputs\<close>

text \<open>
  A run of at most five epochs, validated every epoch, patience 1, the metric maximized;
  a world where no call raises and the metric is 1/2 at epoch 0 and 1/4 afterwards.
\<close>

definition example_args :: args where
  "example_args =
     \<lparr>num_epochs = 5, optimizer = ''adam'', loss_function = ''cross_entropy'',
      maximize_validation_metric = True, patience = Some 1, validate_every = 1,
      log_wandb = False, copy_model_every = 0, save_val_imgs = False, profile = False\<rparr>"

definition calm :: env where
  "calm = \<lparr>raises = (\<lambda>_. None), val_metric_at = (\<lambda>k. if k = 0 then Fin (1/2) else Fin (1/4))\<rparr>"

definition calm_trace :: "event list" where
  "calm_trace =
     [Print ''Training has started'',
      TrainOneEpoch 0, ValidateOneEpoch 0, EndEpoch 0, SetPostfix 0, SaveLogCsv 0, SavePlotsPng 0,
      SaveCheckpoint 0, SaveBestModel 0,
      TrainOneEpoch 1, ValidateOneEpoch 1, EndEpoch 1, SetPostfix 1, SaveLogCsv 1, SavePlotsPng 1,
      SaveCheckpoint 1,
      TrainOneEpoch 2, ValidateOneEpoch 2, EndEpoch 2, SetPostfix 2, SaveLogCsv 2, SavePlotsPng 2,
      SaveCheckpoint 2,
      Print ''Training has finished'', WriteConfigYaml]"

text \<open>The same run validated every second epoch, without early stopping.\<close>

definition sparse_args :: args where
  "sparse_args = example_args\<lparr>validate_every := 2, patience := None, num_epochs := 4\<rparr>"

definition sparse_trace :: "event list" where
  "sparse_trace =
     [Print ''Training has started'',
      TrainOneEpoch 0, ValidateOneEpoch 0, EndEpoch 0, SetPostfix 0, SaveLogCsv 0, SavePlotsPng 0,
      SaveCheckpoint 0, SaveBestModel 0,
      TrainOneEpoch 1, EndEpoch 1, SetPostfix 1, SaveLogCsv 1, SavePlotsPng 1, SaveCheckpoint 1,
      TrainOneEpoch 2, ValidateOneEpoch 2, EndEpoch 2, SetPostfix 2, SaveLogCsv 2, SavePlotsPng 2,
      SaveCheckpoint 2,
      TrainOneEpoch 3, ValidateOneEpoch 3, EndEpoch 3, SetPostfix 3, SaveLogCsv 3, SavePlotsPng 3,
      SaveCheckpoint 3,
      Print ''Training has finished'', WriteConfigYaml]"

text \<open>Ctrl+C arrives while epoch 1 is being validated.\<close>

definition interrupted :: env where
  "interrupted =
     calm\<lparr>raises := (\<lambda>ev. if ev = ValidateOneEpoch 1 then Some KeyboardInterrupt else None)\<rparr>"

definition interrupted_trace :: "event list" where
  "interrupted_trace =
     [Print ''Training has started'',
      TrainOneEpoch 0, ValidateOneEpoch 0, EndEpoch 0, SetPostfix 0, SaveLogCsv 0, SavePlotsPng 0,
      SaveCheckpoint 0, SaveBestModel 0,
      TrainOneEpoch 1]"

text \<open>The model fails on the validation batch of the sanity check.\<close>

definition broken_model :: env where
  "broken_model =
     calm\<lparr>raises := (\<lambda>ev. if ev = ApplyModel then Some (OtherException ''size mismatch'') else None)\<rparr>"

text \<open>
  Three validation loaders, the first with four batches; a batch is a number, the model
  is the identity and the loss returns the scores, so the log shows which batches were
  seen.
\<close>

definition three_loaders :: "nat MultiModuleRunner" where
  "three_loaders =
     \<lparr>model = (\<lambda>imgs. imgs), loss_func = (\<lambda>scores targets. scores), perf_funcs = [],
      dl_valid = [(''VessShape'', [(0, 0), (1, 1), (2, 2), (3, 3)]),
                  (''DRIVE'', [(10, 10), (11, 11), (12, 12)]),
                  (''VessMAP'', [(20, 20), (21, 21), (22, 22)])],
      shape0 = (\<lambda>imgs. 1)\<rparr>"

section \<open>The datasets\<close>

text \<open>
  C10. \<open>get_datasets\<close> returns a training dataset and a validation dataset named
  "VessShape" that are the same VessMAP dataset: both built from the VessMAP root with
  \<open>keepdim=True\<close> and the 256x256 resize transform. No dataset returned has the VessShape
  directory as its root.
\<close>

theorem get_datasets_VessShape_is_VessMAP:
  "case get_datasets datasets_root of (ds_train, ds_valids, ignore_index) \<Rightarrow>
     ds_train = VessMAP (Div (Path datasets_root) ''VessMAP'') True
                  \<lparr>resize_size = Some (256, 256), resize_target = True\<rparr>
   \<and> map_of ds_valids ''VessShape'' = Some ds_train
   \<and> Div (Path datasets_root) ''VessShape''
        \<notin> dataset_root ` (insert ds_train (snd ` set ds_valids))"
  by (simp add: get_datasets_def Let_def)

theorem get_datasets_VessShape_is_VessMAP_witness:
  "case get_datasets ''data'' of (ds_train, ds_valids, ignore_index) \<Rightarrow>
     ds_train = VessMAP (Div (Path ''data'') ''VessMAP'') True
                  \<lparr>resize_size = Some (256, 256), resize_target = True\<rparr>
   \<and> map_of ds_valids ''VessShape'' = Some ds_train
   \<and> Div (Path ''data'') ''VessShape''
        \<notin> dataset_root ` (insert ds_train (snd ` set ds_valids))"
  by (rule get_datasets_VessShape_is_VessMAP)

section \<open>The validation pass\<close>

text \<open>
  C3. One validation pass should see every batch of every validation loader. With three
  loaders in the dictionary, the progress bar of each loader has three indices, so the
  fourth batch of the first loader (the batch 3) is never fetched: the pass returns
  normally and the log has no entry for it.
\<close>

theorem validate_one_epoch_skips_fourth_batch:
  "validate_one_epoch three_loaders 0 [] =
     (Inr (),
      [(0, 0, ''Val loss VessShape'', 0, 1), (0, 1, ''Val loss VessShape'', 1, 1),
       (0, 2, ''Val loss VessShape'', 2, 1),
       (0, 0, ''Val loss DRIVE'', 10, 1), (0, 1, ''Val loss DRIVE'', 11, 1),
       (0, 2, ''Val loss DRIVE'', 12, 1),
       (0, 0, ''Val loss VessMAP'', 20, 1), (0, 1, ''Val loss VessMAP'', 21, 1),
       (0, 2, ''Val loss VessMAP'', 22, 1)])"
  by (simp add: validate_one_epoch_def three_loaders_def validate_batch_def upt_rec)

section \<open>Setting up\<close>

text \<open>
  C4. An unrecognized optimizer name should fail with an error that names it. With the
  optimizer "rmsprop" and a world where no call raises, setting up runs through the
  sanity checks and then fails with \<open>UnboundLocalError\<close> on the local variable \<open>optim\<close>:
  the error does not carry the optimizer's name.
\<close>

theorem unrecognized_optimizer_UnboundLocalError:
  "MultiTrainer_init \<lparr>raises = (\<lambda>_. None), val_metric_at = m\<rparr>
     (a\<lparr>optimizer := ''rmsprop'', loss_function := ''cross_entropy''\<rparr>) [] =
   (Inl (UnboundLocalError ''optim''),
    [Print ''Setting up the experiment...'', SetupExperiment, GetDatasets, SetupModel,
     FetchValidBatch, ApplyModel, ApplyPerfFunc 0])"
  by (simp add: MultiTrainer_init_def setup_dataset_def setup_training_def and_then_def print_def
      call_def ret_def raise_def sanity_try_def num_perf_funcs_def select_optim_def)

text \<open>
  C6. When setting up reaches the sanity check and a stage of it (data loader, model,
  metric function) raises an exception, the program ends with that exception, the last
  line printed is the line of the failing stage, and no training epoch has run.
\<close>

theorem sanity_failure_fatal_and_attributed:
  assumes "raises E SetupExperiment = None" and "raises E GetDatasets = None"
    and "loss_function a = ''cross_entropy''" and "raises E SetupModel = None"
    and "\<forall>s \<in> set (stages_before st). raises E (stage_call s) = None"
    and "raises E (stage_call st) = Some e" and "is_Exception e"
  shows "main E a [] =
     (Inl e, [Print ''Setting up the experiment...'', SetupExperiment, GetDatasets, SetupModel]
             @ map stage_call (stages_before st) @ [Print (stage_message st)])
     \<and> trained (snd (main E a [])) = []"
  using assms
  by (cases st)
     (simp_all add: main_def MultiTrainer_init_def setup_dataset_def setup_training_def
        and_then_def print_def call_def ret_def raise_def sanity_try_def num_perf_funcs_def)

theorem sanity_failure_fatal_and_attributed_witness:
  "main broken_model example_args [] =
     (Inl (OtherException ''size mismatch''),
      [Print ''Setting up the experiment...'', SetupExperiment, GetDatasets, SetupModel]
      @ map stage_call (stages_before Model) @ [Print (stage_message Model)])
     \<and> trained (snd (main broken_model example_args [])) = []"
proof (rule sanity_failure_fatal_and_attributed)
  show "raises broken_model SetupExperiment = None" by (simp add: broken_model_def)
  show "raises broken_model GetDatasets = None" by (simp add: broken_model_def)
  show "loss_function example_args = ''cross_entropy''" by (simp add: example_args_def)
  show "raises broken_model SetupModel = None" by (simp add: broken_model_def)
  show "\<forall>s \<in> set (stages_before Model). raises broken_model (stage_call s) = None"
    by (simp add: broken_model_def)
  show "raises broken_model (stage_call Model) = Some (OtherException ''size mismatch'')"
    by (simp add: broken_model_def)
  show "is_Exception (OtherException ''size mismatch'')" by simp
qed

section \<open>The multiplicative augmentation\<close>

subsection \<open>Rounding to a double\<close>









lemma float64_0 [simp]: "float64 0 = 0"
  by (simp add: float64_def)






subsection \<open>The configured range\<close>












section \<open>One epoch of the loop\<close>

lemma trained_append: "trained (xs @ ys) = trained xs @ trained ys"
  by (induction xs rule: trained.induct) auto

lemma step_of_InlD:
  assumes "step_of m A V" "m out = (Inl e, out')"
  shows "\<exists>p. prefix p A \<and> out' = out @ p"
proof -
  from assms(1) have "m out = (Inl e, out') \<longrightarrow>
      (case (Inl e :: exn + 'a) of Inr x \<Rightarrow> out' = out @ A \<and> V x
                 | Inl _ \<Rightarrow> (\<exists>p. prefix p A \<and> out' = out @ p))"
    unfolding step_of_def by blast
  with assms(2) show ?thesis by simp
qed

lemma step_of_InrD:
  assumes "step_of m A V" "m out = (Inr x, out')"
  shows "out' = out @ A \<and> V x"
proof -
  from assms(1) have "m out = (Inr x, out') \<longrightarrow>
      (case (Inr x :: exn + 'a) of Inr x \<Rightarrow> out' = out @ A \<and> V x
                 | Inl _ \<Rightarrow> (\<exists>p. prefix p A \<and> out' = out @ p))"
    unfolding step_of_def by blast
  with assms(2) show ?thesis by simp
qed

lemma step_call: "step_of (call E ev) [ev] (\<lambda>_. True)"
  by (auto simp: step_of_def call_def split: option.splits)

lemma step_when: "step_of (when_do b (call E ev)) (if b then [ev] else []) (\<lambda>_. True)"
  by (auto simp: step_of_def call_def when_do_def ret_def split: option.splits)

lemma step_ret: "step_of (ret x) [] (\<lambda>y. y = x)"
  by (auto simp: step_of_def ret_def)

lemma step_validate_due: "step_of (validate_due a k) [] (\<lambda>v. v = validated a k)"
  by (auto simp: step_of_def validate_due_def validated_def ret_def raise_def dvd_eq_mod_eq_0
      split: if_splits)

lemma step_seq:
  assumes "step_of m A V" and "\<And>x. V x \<Longrightarrow> step_of (f x) B W"
  shows "step_of (and_then m f) (A @ B) W"
  unfolding step_of_def
proof (intro allI impI)
  fix out r out'
  assume run: "and_then m f out = (r, out')"
  obtain r1 out1 where m: "m out = (r1, out1)" by (cases "m out")
  show "case r of Inl _ \<Rightarrow> \<exists>p. prefix p (A @ B) \<and> out' = out @ p | Inr x \<Rightarrow> out' = out @ A @ B \<and> W x"
  proof (cases r1)
    case (Inl e)
    with m run have "r = Inl e" "out' = out1" by (simp_all add: and_then_def)
    moreover from step_of_InlD [OF assms(1)] m Inl obtain p where "prefix p A" "out1 = out @ p"
      by blast
    ultimately show ?thesis by (auto intro: prefix_prefix)
  next
    case (Inr x)
    with m run have f: "f x out1 = (r, out')" by (simp add: and_then_def)
    from step_of_InrD [OF assms(1)] m Inr have o1: "out1 = out @ A" and "V x" by auto
    show ?thesis
    proof (cases r)
      case (Inl e)
      with step_of_InlD [OF assms(2) [OF \<open>V x\<close>]] f obtain p where "prefix p B" "out' = out1 @ p"
        by blast
      with o1 Inl show ?thesis by auto
    next
      case (Inr y)
      with step_of_InrD [OF assms(2) [OF \<open>V x\<close>]] f have "out' = out1 @ B" "W y" by auto
      with o1 Inr show ?thesis by simp
    qed
  qed
qed

lemma step_check_improvement:
  "step_of (check_improvement E a k loc)
     (if compare a (val_metric_at E k) (best_val_metric loc) then [SaveBestModel k] else [])
     (\<lambda>(c, loc').
        c = (if \<not> compare a (val_metric_at E k) (best_val_metric loc)
               \<and> (case patience a of None \<Rightarrow> False | Some p \<Rightarrow> epochs_without_improvement loc + 1 > p)
             then Break else Continue)
      \<and> loc' = (if compare a (val_metric_at E k) (best_val_metric loc)
                then \<lparr>best_val_metric = val_metric_at E k, epochs_without_improvement = 0\<rparr>
                else loc\<lparr>epochs_without_improvement := epochs_without_improvement loc + 1\<rparr>))"
  by (auto simp: step_of_def check_improvement_def and_then_def call_def ret_def Let_def
      split: option.splits)

lemma step_tail:
  "step_of (if validated a k
            then and_then (when_do (save_val_imgs a) (call E (SaveValImgs k))) (\<lambda>_. check_improvement E a k loc)
            else ret (Continue, loc))
     (if validated a k
      then (if save_val_imgs a then [SaveValImgs k] else [])
           @ (if compare a (val_metric_at E k) (best_val_metric loc) then [SaveBestModel k] else [])
      else [])
     (\<lambda>(c, loc'). c = next_ctrl E a k loc \<and> loc' = next_locals E a k loc)"
proof (cases "validated a k")
  case True
  have "step_of (and_then (when_do (save_val_imgs a) (call E (SaveValImgs k))) (\<lambda>_. check_improvement E a k loc))
     ((if save_val_imgs a then [SaveValImgs k] else [])
           @ (if compare a (val_metric_at E k) (best_val_metric loc) then [SaveBestModel k] else []))
     (\<lambda>(c, loc').
        c = (if \<not> compare a (val_metric_at E k) (best_val_metric loc)
               \<and> (case patience a of None \<Rightarrow> False | Some p \<Rightarrow> epochs_without_improvement loc + 1 > p)
             then Break else Continue)
      \<and> loc' = (if compare a (val_metric_at E k) (best_val_metric loc)
                then \<lparr>best_val_metric = val_metric_at E k, epochs_without_improvement = 0\<rparr>
                else loc\<lparr>epochs_without_improvement := epochs_without_improvement loc + 1\<rparr>))"
    by (rule step_seq [OF step_when step_check_improvement])
  with True show ?thesis by (simp add: next_ctrl_def next_locals_def)
next
  case False
  then show ?thesis by (auto simp: next_ctrl_def next_locals_def step_of_def ret_def)
qed

lemma step_fit_body:
  "step_of (fit_body E a k loc)
     (completed_events a k (compare a (val_metric_at E k) (best_val_metric loc)))
     (\<lambda>(c, loc'). c = next_ctrl E a k loc \<and> loc' = next_locals E a k loc)"
proof -
  have "step_of (fit_body E a k loc)
     ([TrainOneEpoch k] @ [] @ (if validated a k then [ValidateOneEpoch k] else [])
      @ [EndEpoch k] @ [SetPostfix k] @ [SaveLogCsv k] @ [SavePlotsPng k]
      @ (if log_wandb a then [WandbLog k] else [])
      @ [SaveCheckpoint k]
      @ (if copy_due a k then [SaveCheckpointCopy k] else [])
      @ (if validated a k
         then (if save_val_imgs a then [SaveValImgs k] else [])
              @ (if compare a (val_metric_at E k) (best_val_metric loc) then [SaveBestModel k] else [])
         else []))
     (\<lambda>(c, loc'). c = next_ctrl E a k loc \<and> loc' = next_locals E a k loc)"
    unfolding fit_body_def
    apply (rule step_seq [OF step_call])
    apply (rule step_seq [OF step_validate_due])
    apply (erule ssubst)
    apply (rule step_seq [OF step_when])
    apply (rule step_seq [OF step_call])
    apply (rule step_seq [OF step_call])
    apply (rule step_seq [OF step_call])
    apply (rule step_seq [OF step_call])
    apply (rule step_seq [OF step_when])
    apply (rule step_seq [OF step_call])
    apply (rule step_seq [OF step_when])
    apply (rule step_tail)
    done
  then show ?thesis by (simp add: completed_events_def)
qed


lemma fit_body_Inr:
  assumes "fit_body E a k loc out = (Inr (c, loc'), out')"
  shows "out' = out @ completed_events a k (compare a (val_metric_at E k) (best_val_metric loc))"
    and "c = next_ctrl E a k loc" and "loc' = next_locals E a k loc"
  using step_of_InrD [OF step_fit_body assms] by auto

lemma fit_body_prefix:
  assumes "fit_body E a k loc out = (r, out')"
  shows "\<exists>p. prefix p (completed_events a k (compare a (val_metric_at E k) (best_val_metric loc)))
            \<and> out' = out @ p"
proof (cases r)
  case (Inl e)
  with assms step_of_InlD [OF step_fit_body] show ?thesis by blast
next
  case (Inr x)
  obtain c loc' where "x = (c, loc')" by (cases x)
  with Inr assms fit_body_Inr(1) show ?thesis by blast
qed

lemma completed_events_epoch: "ev \<in> set (completed_events a k i) \<Longrightarrow> epoch_of ev = Some k"
  by (auto simp: completed_events_def split: if_splits)

lemma trained_completed_events: "trained (completed_events a k i) = [k]"
  by (simp add: completed_events_def)

lemma prefix_trained: "prefix p q \<Longrightarrow> prefix (trained p) (trained q)"
  by (auto simp: prefix_def trained_append)

lemma prefix_completed_validate:
  assumes "prefix p (completed_events a k i)" "EndEpoch k \<in> set p"
  shows "ValidateOneEpoch k \<in> set p \<longleftrightarrow> validated a k"
proof -
  let ?X = "[TrainOneEpoch k] @ (if validated a k then [ValidateOneEpoch k] else [])"
  let ?Y = "[EndEpoch k, SetPostfix k, SaveLogCsv k, SavePlotsPng k]
     @ (if log_wandb a then [WandbLog k] else [])
     @ [SaveCheckpoint k]
     @ (if copy_due a k then [SaveCheckpointCopy k] else [])
     @ (if validated a k
        then (if save_val_imgs a then [SaveValImgs k] else []) @ (if i then [SaveBestModel k] else [])
        else [])"
  have ce: "completed_events a k i = ?X @ ?Y" by (simp add: completed_events_def)
  have "\<not> prefix p ?X"
  proof
    assume "prefix p ?X"
    then have "set p \<subseteq> set ?X" by (rule set_mono_prefix)
    with assms(2) show False by (auto split: if_splits)
  qed
  moreover from assms(1) have "prefix p (?X @ ?Y)" unfolding ce .
  then have "prefix p ?X \<or> (\<exists>us. p = ?X @ us \<and> prefix us ?Y)"
    by (rule prefix_append [THEN iffD1])
  ultimately obtain us where p: "p = ?X @ us" and us: "prefix us ?Y" by blast
  from us have "set us \<subseteq> set ?Y" by (rule set_mono_prefix)
  then have "ValidateOneEpoch k \<notin> set us" by (auto split: if_splits)
  with p show ?thesis by auto
qed

section \<open>The loop and the whole run\<close>

lemma reach_Suc:
  assumes "reach E a (Suc k) = Some (loc', out')"
  obtains loc out where "reach E a k = Some (loc, out)"
    and "fit_body E a k loc out = (Inr (Continue, loc'), out')"
  using assms
  by (auto split: option.splits prod.splits sum.splits ctrl.splits)

lemma reach_trace:
  "reach E a k = Some (loc, out) \<Longrightarrow>
     (\<forall>ev \<in> set out. \<forall>j. epoch_of ev = Some j \<longrightarrow> j < k) \<and> trained out = [0..<k]"
proof (induction k arbitrary: loc out)
  case 0
  then show ?case by auto
next
  case (Suc k)
  from Suc.prems obtain loc0 out0 where r: "reach E a k = Some (loc0, out0)"
    and b: "fit_body E a k loc0 out0 = (Inr (Continue, loc), out)" by (rule reach_Suc)
  from fit_body_Inr(1) [OF b] obtain i where out: "out = out0 @ completed_events a k i" by blast
  from Suc.IH [OF r] have old: "\<forall>ev \<in> set out0. \<forall>j. epoch_of ev = Some j \<longrightarrow> j < k"
    and tr: "trained out0 = [0..<k]" by auto
  show ?case
  proof
    show "\<forall>ev \<in> set out. \<forall>j. epoch_of ev = Some j \<longrightarrow> j < Suc k"
      using old completed_events_epoch [of _ a k i] unfolding out by (auto simp: less_Suc_eq)
    show "trained out = [0..<Suc k]"
      unfolding out by (simp add: trained_append tr trained_completed_events)
  qed
qed

lemma loop_from_reach:
  "reach E a k = Some (loc, out) \<Longrightarrow> k \<le> n \<Longrightarrow>
     fit_loop E a [0..<n] (initial_locals a) [Print ''Training has started'']
       = fit_loop E a [k..<n] loc out"
proof (induction k arbitrary: loc out)
  case 0
  then show ?case by simp
next
  case (Suc k)
  from Suc.prems(1) obtain loc0 out0 where r: "reach E a k = Some (loc0, out0)"
    and b: "fit_body E a k loc0 out0 = (Inr (Continue, loc), out)" by (rule reach_Suc)
  from Suc.prems(2) have "k < n" by simp
  then have list: "[k..<n] = k # [Suc k..<n]" by (rule upt_conv_Cons)
  from Suc.IH [OF r] \<open>k < n\<close>
  have "fit_loop E a [0..<n] (initial_locals a) [Print ''Training has started'']
       = fit_loop E a [k..<n] loc0 out0" by simp
  also have "\<dots> = fit_loop E a [Suc k..<n] loc out" unfolding list using b by simp
  finally show ?case .
qed

lemma loop_later:
  "fit_loop E a eps loc out = (r, tr) \<Longrightarrow>
     \<exists>evs. tr = out @ evs \<and> (\<forall>ev \<in> set evs. \<exists>j \<in> set eps. epoch_of ev = Some j)
          \<and> length (trained evs) \<le> length eps"
proof (induction eps arbitrary: loc out)
  case Nil
  then show ?case by simp
next
  case (Cons k eps)
  obtain rb out' where body: "fit_body E a k loc out = (rb, out')" by (cases "fit_body E a k loc out")
  from fit_body_prefix [OF body] obtain p i where p: "prefix p (completed_events a k i)"
    and out': "out' = out @ p" by blast
  have ep: "\<forall>ev \<in> set p. epoch_of ev = Some k"
    using set_mono_prefix [OF p] completed_events_epoch by blast
  from prefix_trained [OF p] have "length (trained p) \<le> 1"
    by (auto simp: trained_completed_events dest: prefix_length_le)
  have stop: "tr = out' \<Longrightarrow> ?case"
  proof -
    assume "tr = out'"
    with out' ep \<open>length (trained p) \<le> 1\<close> show ?case
      by (intro exI [of _ p]) auto
  qed
  show ?case
  proof (cases rb)
    case (Inl e)
    with Cons.prems body have "tr = out'" by simp
    then show ?thesis by (rule stop)
  next
    case (Inr x)
    obtain c loc' where x: "x = (c, loc')" by (cases x)
    show ?thesis
    proof (cases c)
      case Break
      with Cons.prems body Inr x have "tr = out'" by simp
      then show ?thesis by (rule stop)
    next
      case Continue
      with Cons.prems body Inr x have "fit_loop E a eps loc' out' = (r, tr)" by simp
      from Cons.IH [OF this] obtain evs where tr: "tr = out' @ evs"
        and evs: "\<forall>ev \<in> set evs. \<exists>j \<in> set eps. epoch_of ev = Some j"
        and len: "length (trained evs) \<le> length eps" by blast
      show ?thesis
        using tr out' evs ep len \<open>length (trained p) \<le> 1\<close>
        by (intro exI [of _ "p @ evs"]) (auto simp: trained_append)
    qed
  qed
qed

lemma no_epoch_trained: "\<forall>ev \<in> set td. epoch_of ev = None \<Longrightarrow> trained td = []"
  by (induction td rule: trained.induct) auto

lemma fit_trace:
  assumes "fit E a out = (r, tr)"
  shows "\<exists>rl trl td. fit_loop E a [0..<nat (num_epochs a)] (initial_locals a)
                        (out @ [Print ''Training has started'']) = (rl, trl)
           \<and> tr = trl @ td \<and> (\<forall>ev \<in> set td. epoch_of ev = None)"
proof -
  obtain rl trl where loop: "fit_loop E a [0..<nat (num_epochs a)] (initial_locals a)
                        (out @ [Print ''Training has started'']) = (rl, trl)"
    by (cases "fit_loop E a [0..<nat (num_epochs a)] (initial_locals a)
                        (out @ [Print ''Training has started''])")
  have "\<exists>td. tr = trl @ td \<and> (\<forall>ev \<in> set td. epoch_of ev = None)"
    using assms loop
    by (auto simp: fit_def teardown_def and_then_def print_def except_KeyboardInterrupt_def
        call_def when_do_def ret_def split: sum.splits if_splits option.splits)
  with loop show ?thesis by blast
qed


lemma epoch_events_final:
  assumes r: "reach E a e = Some (loc, out)" and e: "int e < num_epochs a"
    and b: "fit_body E a e loc out = (rb, out')"
    and f: "fit E a [] = (r, tr)" and ev: "epoch_of ev = Some e"
  shows "ev \<in> set tr \<longleftrightarrow> ev \<in> set out'"
proof -
  let ?n = "nat (num_epochs a)"
  from e have en: "e < ?n" by linarith
  from fit_trace [OF f] obtain rl trl td where
    loop: "fit_loop E a [0..<?n] (initial_locals a) [Print ''Training has started''] = (rl, trl)"
    and tr: "tr = trl @ td" and td: "\<forall>ev \<in> set td. epoch_of ev = None" by auto
  from en have list: "[e..<?n] = e # [Suc e..<?n]" by (rule upt_conv_Cons)
  from loop loop_from_reach [OF r, of ?n] en
  have l2: "fit_loop E a (e # [Suc e..<?n]) loc out = (rl, trl)" by (simp add: list)
  have "\<exists>evs. trl = out' @ evs \<and> (\<forall>ev \<in> set evs. \<exists>j \<in> set [Suc e..<?n]. epoch_of ev = Some j)"
  proof (cases rb)
    case (Inl x)
    with l2 b show ?thesis by simp
  next
    case (Inr x)
    obtain c loc' where x: "x = (c, loc')" by (cases x)
    show ?thesis
    proof (cases c)
      case Break
      with l2 b Inr x show ?thesis by simp
    next
      case Continue
      with l2 b Inr x have "fit_loop E a [Suc e..<?n] loc' out' = (rl, trl)" by simp
      from loop_later [OF this] show ?thesis by blast
    qed
  qed
  then obtain evs where trl: "trl = out' @ evs"
    and evs: "\<forall>ev \<in> set evs. \<exists>j \<in> set [Suc e..<?n]. epoch_of ev = Some j" by blast
  from evs ev have "ev \<notin> set evs" by fastforce
  moreover from td ev have "ev \<notin> set td" by fastforce
  ultimately show ?thesis by (simp add: tr trl)
qed


section \<open>The validation cadence\<close>

lemma cadence_inv_body:
  assumes "cadence_inv a k out" "fit_body E a k loc out = (r, out')" "int k < num_epochs a"
  shows "cadence_inv a (Suc k) out'"
proof -
  from fit_body_prefix [OF assms(2)] obtain p where
    p: "prefix p (completed_events a k (compare a (val_metric_at E k) (best_val_metric loc)))"
    and out': "out' = out @ p" by blast
  have ep: "\<forall>ev \<in> set p. epoch_of ev = Some k"
    using set_mono_prefix [OF p] completed_events_epoch by blast
  from assms(1) have old: "\<forall>ev \<in> set out. epoch_of ev \<noteq> Some k"
    by (auto simp: cadence_inv_def)
  have new: "EndEpoch k \<in> set p \<Longrightarrow> (ValidateOneEpoch k \<in> set p \<longleftrightarrow> validated a k)"
    using prefix_completed_validate [OF p] .
  show ?thesis
    unfolding cadence_inv_def out'
  proof (intro conjI ballI allI impI)
    fix ev j assume "ev \<in> set (out @ p)" "epoch_of ev = Some j"
    with ep assms(1) show "j < Suc k" by (auto simp: cadence_inv_def less_Suc_eq)
  next
    fix e assume e: "EndEpoch e \<in> set (out @ p)"
    show "int e < num_epochs a"
      using e ep assms(1,3) by (auto simp: cadence_inv_def)
  next
    fix e assume e: "EndEpoch e \<in> set (out @ p)"
    show "(ValidateOneEpoch e \<in> set (out @ p)) = validated a e"
    proof (cases "e = k")
      case True
      with e old have "EndEpoch k \<in> set p" by auto
      from new [OF this] old True show ?thesis by auto
    next
      case False
      with e ep have "EndEpoch e \<in> set out" by auto
      moreover from False ep have "ValidateOneEpoch e \<notin> set p" by auto
      ultimately show ?thesis using assms(1) by (auto simp: cadence_inv_def)
    qed
  qed
qed

lemma cadence_inv_loop:
  assumes "cadence_inv a k out" "fit_loop E a [k..<n] loc out = (r, tr)" "n \<le> nat (num_epochs a)"
  shows "\<exists>k'. cadence_inv a k' tr"
  using assms
proof (induction "n - k" arbitrary: k loc out)
  case 0
  then show ?case by auto
next
  case (Suc d)
  then have kn: "k < n" by simp
  then have list: "[k..<n] = k # [Suc k..<n]" by (rule upt_conv_Cons)
  obtain rb out' where body: "fit_body E a k loc out = (rb, out')" by (cases "fit_body E a k loc out")
  from kn Suc.prems(3) have "int k < num_epochs a" by linarith
  from cadence_inv_body [OF Suc.prems(1) body this] have inv': "cadence_inv a (Suc k) out'" .
  show ?case
  proof (cases rb)
    case (Inl e)
    with Suc.prems(2) list body have "tr = out'" by simp
    with inv' show ?thesis by blast
  next
    case (Inr x)
    obtain c loc' where x: "x = (c, loc')" by (cases x)
    show ?thesis
    proof (cases c)
      case Break
      with Suc.prems(2) list body Inr x have "tr = out'" by simp
      with inv' show ?thesis by blast
    next
      case Continue
      with Suc.prems(2) list body Inr x have "fit_loop E a [Suc k..<n] loc' out' = (r, tr)" by simp
      moreover from Suc.hyps(2) have "d = n - Suc k" by simp
      ultimately show ?thesis using Suc.hyps(1) inv' Suc.prems(3) by blast
    qed
  qed
qed


text \<open>
  C5. In every run of \<open>fit\<close>, for every epoch \<open>e\<close> that got as far as aggregating its
  metrics (so the decision to validate was taken), \<open>e\<close> is below \<open>num_epochs\<close> and the
  validation pass ran at \<open>e\<close> if and only if \<open>e\<close> is 0, or \<open>num_epochs - 1\<close>, or a
  multiple of \<open>validate_every\<close>.
\<close>

theorem validation_cadence:
  assumes "fit E a [] = (r, tr)" and "EndEpoch e \<in> set tr"
  shows "int e < num_epochs a
       \<and> (ValidateOneEpoch e \<in> set tr \<longleftrightarrow>
            e = 0 \<or> int e = num_epochs a - 1 \<or> validate_every a dvd int e)"
proof -
  from fit_trace [OF assms(1)] obtain rl trl td where
    loop: "fit_loop E a [0..<nat (num_epochs a)] (initial_locals a)
             ([] @ [Print ''Training has started'']) = (rl, trl)"
    and tr: "tr = trl @ td" and td: "\<forall>ev \<in> set td. epoch_of ev = None" by blast
  have "cadence_inv a 0 ([] @ [Print ''Training has started''])" by (simp add: cadence_inv_def)
  from cadence_inv_loop [OF this loop] obtain k' where inv: "cadence_inv a k' trl" by auto
  from td have "EndEpoch e \<notin> set td" "ValidateOneEpoch e \<notin> set td" by auto
  with assms(2) tr inv show ?thesis by (auto simp: cadence_inv_def validated_def)
qed


theorem validation_cadence_witness:
  "int 1 < num_epochs sparse_args
   \<and> (ValidateOneEpoch 1 \<in> set sparse_trace \<longleftrightarrow>
        (1::nat) = 0 \<or> int 1 = num_epochs sparse_args - 1 \<or> validate_every sparse_args dvd int 1)"
proof (rule validation_cadence)
  show "fit calm sparse_args [] = (Inr (), sparse_trace)" by code_simp
  show "EndEpoch 1 \<in> set sparse_trace" by (simp add: sparse_trace_def)
qed

section \<open>Checkpoints and the best model\<close>

lemma py_lt_irrefl: "\<not> py_lt x x"
  by (cases x) auto

lemma py_lt_trans: "py_lt x y \<Longrightarrow> py_lt y z \<Longrightarrow> py_lt x z"
  by (cases x; cases y; cases z) auto

lemma py_lt_total: "x \<noteq> NaN \<Longrightarrow> y \<noteq> NaN \<Longrightarrow> py_lt x y \<or> x = y \<or> py_lt y x"
  by (cases x; cases y) auto

lemma py_lt_not_NaN: "py_lt x y \<Longrightarrow> x \<noteq> NaN \<and> y \<noteq> NaN"
  by (cases x; cases y) auto

lemma py_lt_PosInf: "py_lt x y \<Longrightarrow> py_lt x PosInf"
  by (cases x; cases y) auto

lemma py_lt_NegInf: "py_lt x y \<Longrightarrow> py_lt NegInf y"
  by (cases x; cases y) auto

lemma compare_irrefl: "\<not> compare a x x"
  by (simp add: compare_def py_gt_def py_lt_irrefl)

lemma compare_trans: "compare a x y \<Longrightarrow> compare a y z \<Longrightarrow> compare a x z"
  by (auto simp: compare_def py_gt_def intro: py_lt_trans split: if_splits)

lemma compare_total: "x \<noteq> NaN \<Longrightarrow> y \<noteq> NaN \<Longrightarrow> compare a x y \<or> x = y \<or> compare a y x"
  using py_lt_total [of x y] by (auto simp: compare_def py_gt_def)

lemma compare_not_NaN: "compare a x y \<Longrightarrow> x \<noteq> NaN \<and> y \<noteq> NaN"
  by (auto simp: compare_def py_gt_def dest: py_lt_not_NaN split: if_splits)

lemma better_compare: "better a x y = compare a x y"
  by (simp add: better_def compare_def)

lemma worst_initial: "worst a = best_val_metric (initial_locals a)"
  by (simp add: worst_def initial_locals_def)

lemma compare_worst: "compare a x y \<Longrightarrow> compare a x (worst a)"
  by (auto simp: compare_def py_gt_def worst_def intro: py_lt_PosInf py_lt_NegInf
      split: if_splits)

lemma best_inv_initial: "best_inv E a 0 (best_val_metric (initial_locals a))"
  by (simp add: best_inv_def initial_locals_def worst_def)

lemma best_inv_step:
  assumes "best_inv E a k (best_val_metric loc)"
  shows "best_inv E a (Suc k) (best_val_metric (next_locals E a k loc))"
proof (cases "validated a k \<and> compare a (val_metric_at E k) (best_val_metric loc)")
  case True
  then have nl: "best_val_metric (next_locals E a k loc) = val_metric_at E k"
    by (simp add: next_locals_def)
  from True compare_not_NaN have nn: "val_metric_at E k \<noteq> NaN" by blast
  have "\<not> compare a (val_metric_at E j) (val_metric_at E k)" if "j < Suc k" "validated a j" for j
  proof (cases "j = k")
    case True
    then show ?thesis by (simp add: compare_irrefl)
  next
    case False
    with that have "j < k" by simp
    with assms that have "\<not> compare a (val_metric_at E j) (best_val_metric loc)"
      by (simp add: best_inv_def)
    with True show ?thesis using compare_trans by blast
  qed
  with True nn show ?thesis unfolding best_inv_def nl by auto
next
  case False
  then have nl: "best_val_metric (next_locals E a k loc) = best_val_metric loc"
    by (auto simp: next_locals_def)
  from assms False show ?thesis
    unfolding best_inv_def nl by (auto simp: less_Suc_eq)
qed

lemma reach_best_inv: "reach E a k = Some (loc, out) \<Longrightarrow> best_inv E a k (best_val_metric loc)"
proof (induction k arbitrary: loc out)
  case 0
  then show ?case using best_inv_initial by auto
next
  case (Suc k)
  from Suc.prems obtain loc0 out0 where r: "reach E a k = Some (loc0, out0)"
    and b: "fit_body E a k loc0 out0 = (Inr (Continue, loc), out)" by (rule reach_Suc)
  from fit_body_Inr(3) [OF b] best_inv_step [OF Suc.IH [OF r]] show ?case by simp
qed

lemma best_inv_improves:
  assumes "best_inv E a e b"
  shows "compare a (val_metric_at E e) b \<longleftrightarrow> improves E a e"
proof
  assume c: "compare a (val_metric_at E e) b"
  have "compare a (val_metric_at E e) (val_metric_at E j)"
    if "j < e" "validated a j" "val_metric_at E j \<noteq> NaN" for j
  proof -
    from assms that have nb: "\<not> compare a (val_metric_at E j) b" and "b \<noteq> NaN"
      by (auto simp: best_inv_def)
    with compare_total [of "val_metric_at E j" b a] that
    have "val_metric_at E j = b \<or> compare a b (val_metric_at E j)" by blast
    with c show ?thesis using compare_trans by blast
  qed
  with c show "improves E a e"
    using compare_worst by (auto simp: improves_def better_compare)
next
  assume i: "improves E a e"
  from assms have "b = worst a \<or> (\<exists>j<e. validated a j \<and> b = val_metric_at E j)"
    and "b \<noteq> NaN" by (auto simp: best_inv_def)
  with i show "compare a (val_metric_at E e) b" by (auto simp: improves_def better_compare)
qed

text \<open>
  C8. For every epoch \<open>e\<close> that runs to its end, the run has written \<open>checkpoint.pt\<close> at
  \<open>e\<close>, and it has written \<open>best_model.pt\<close> at \<open>e\<close> exactly when \<open>e\<close> was validated and
  its metric is strictly better (greater when maximizing, less otherwise) than the best
  value seen so far.
\<close>

theorem checkpoint_every_epoch_best_on_improvement:
  assumes "completes E a e" and "fit E a [] = (r, tr)"
  shows "SaveCheckpoint e \<in> set tr
       \<and> (SaveBestModel e \<in> set tr \<longleftrightarrow> validated a e \<and> improves E a e)"
proof -
  from assms(1) obtain loc out c loc' out' where e: "int e < num_epochs a"
    and r: "reach E a e = Some (loc, out)"
    and b: "fit_body E a e loc out = (Inr (c, loc'), out')"
    by (auto simp: completes_def split: option.splits prod.splits sum.splits)
  let ?i = "compare a (val_metric_at E e) (best_val_metric loc)"
  from fit_body_Inr(1) [OF b] have out': "out' = out @ completed_events a e ?i" .
  from reach_trace [OF r] have old: "\<forall>ev \<in> set out. epoch_of ev \<noteq> Some e" by auto
  from best_inv_improves [OF reach_best_inv [OF r]] have i: "?i \<longleftrightarrow> improves E a e" .
  have "SaveCheckpoint e \<in> set tr \<longleftrightarrow> SaveCheckpoint e \<in> set out'"
    by (rule epoch_events_final [OF r e b assms(2)]) simp
  moreover have "SaveBestModel e \<in> set tr \<longleftrightarrow> SaveBestModel e \<in> set out'"
    by (rule epoch_events_final [OF r e b assms(2)]) simp
  moreover have "SaveCheckpoint e \<in> set out'"
    unfolding out' by (simp add: completed_events_def)
  moreover have "SaveBestModel e \<in> set out' \<longleftrightarrow> validated a e \<and> ?i"
    unfolding out' using old by (auto simp: completed_events_def)
  ultimately show ?thesis using i by simp
qed


theorem checkpoint_every_epoch_best_on_improvement_witness:
  "SaveCheckpoint 1 \<in> set calm_trace
   \<and> (SaveBestModel 1 \<in> set calm_trace \<longleftrightarrow> validated example_args 1 \<and> improves calm example_args 1)"
proof (rule checkpoint_every_epoch_best_on_improvement)
  show "completes calm example_args 1" by code_simp
  show "fit calm example_args [] = (Inr (), calm_trace)" by code_simp
qed

section \<open>Early stopping\<close>

lemma succeeds_call: "raises E ev = None \<Longrightarrow> succeeds (call E ev)"
  by (simp add: succeeds_def call_def)

lemma succeeds_when: "(b \<Longrightarrow> raises E ev = None) \<Longrightarrow> succeeds (when_do b (call E ev))"
  by (simp add: succeeds_def call_def when_do_def ret_def)

lemma succeeds_ret: "succeeds (ret x)"
  by (simp add: succeeds_def ret_def)

lemma succeeds_seq:
  assumes "succeeds m" "\<And>x. succeeds (f x)"
  shows "succeeds (and_then m f)"
  unfolding succeeds_def
proof
  fix out
  from assms(1) obtain x out1 where "m out = (Inr x, out1)" unfolding succeeds_def by blast
  moreover from assms(2) obtain y out2 where "f x out1 = (Inr y, out2)" unfolding succeeds_def by blast
  ultimately show "\<exists>y out'. and_then m f out = (Inr y, out')" by (simp add: and_then_def)
qed

lemma succeeds_validate_due: "validated a k \<or> validate_every a \<noteq> 0 \<Longrightarrow> succeeds (validate_due a k)"
  by (auto simp: succeeds_def validate_due_def validated_def ret_def raise_def)

lemma succeeds_check_improvement:
  "raises E (SaveBestModel k) = None \<Longrightarrow> succeeds (check_improvement E a k loc)"
  by (simp add: succeeds_def check_improvement_def and_then_def call_def ret_def Let_def)

lemma succeeds_fit_body:
  assumes "quiet E k" "validated a k \<or> validate_every a \<noteq> 0"
  shows "succeeds (fit_body E a k loc)"
proof -
  have q: "raises E ev = None" if "epoch_of ev = Some k" for ev
    using assms(1) that by (simp add: quiet_def)
  show ?thesis
    unfolding fit_body_def
    by (intro succeeds_seq succeeds_call succeeds_when succeeds_ret succeeds_validate_due
        succeeds_check_improvement assms(2) q if_split [where P = succeeds, THEN iffD2] conjI impI)
      simp_all
qed

lemma fit_body_quiet:
  assumes "quiet E k" "validated a k \<or> validate_every a \<noteq> 0"
  shows "fit_body E a k loc out =
     (Inr (next_ctrl E a k loc, next_locals E a k loc),
      out @ completed_events a k (compare a (val_metric_at E k) (best_val_metric loc)))"
proof -
  from succeeds_fit_body [OF assms, of loc] obtain x out' where
    b: "fit_body E a k loc out = (Inr x, out')" unfolding succeeds_def by blast
  obtain c loc' where x: "x = (c, loc')" by (cases x)
  from fit_body_Inr [OF b [unfolded x]] b x show ?thesis by simp
qed

text \<open>The stall: no improvement from a counter c up to the patience.\<close>

lemma stall_breaks:
  assumes "patience a = Some P"
  shows "d = nat (P - epochs_without_improvement loc) \<Longrightarrow> epochs_without_improvement loc \<le> P \<Longrightarrow>
     \<forall>j \<le> d. quiet E (k + j) \<and> validated a (k + j)
             \<and> \<not> compare a (val_metric_at E (k + j)) (best_val_metric loc) \<Longrightarrow>
     k + d < n \<Longrightarrow>
     \<exists>out'. fit_loop E a [k..<n] loc out = (Inr (), out') \<and> trained out' = trained out @ [k..<Suc (k + d)]"
proof (induction d arbitrary: k loc out)
  case 0
  then have kn: "k < n" by simp
  then have list: "[k..<n] = k # [Suc k..<n]" by (rule upt_conv_Cons)
  from 0 have q: "quiet E k" and v: "validated a k"
    and ni: "\<not> compare a (val_metric_at E k) (best_val_metric loc)" by auto
  from 0 have c: "epochs_without_improvement loc = P" by simp
  have "next_ctrl E a k loc = Break" using v ni c assms by (simp add: next_ctrl_def)
  with fit_body_quiet [OF q, of a loc out] v ni
  have "fit_body E a k loc out = (Inr (Break, next_locals E a k loc), out @ completed_events a k False)"
    by simp
  then show ?case unfolding list by (simp add: trained_append trained_completed_events)
next
  case (Suc d)
  then have kn: "k < n" by simp
  then have list: "[k..<n] = k # [Suc k..<n]" by (rule upt_conv_Cons)
  from Suc.prems(3) have q: "quiet E k" and v: "validated a k"
    and ni: "\<not> compare a (val_metric_at E k) (best_val_metric loc)" by (auto dest: spec [of _ 0])
  from Suc.prems(1) have c: "epochs_without_improvement loc < P" by simp
  let ?loc = "next_locals E a k loc"
  have nc: "next_ctrl E a k loc = Continue" using c assms by (simp add: next_ctrl_def)
  have nl: "best_val_metric ?loc = best_val_metric loc"
    "epochs_without_improvement ?loc = epochs_without_improvement loc + 1"
    using v ni by (simp_all add: next_locals_def)
  from fit_body_quiet [OF q, of a loc out] v ni nc
  have b: "fit_body E a k loc out = (Inr (Continue, ?loc), out @ completed_events a k False)"
    by simp
  have "\<exists>out'. fit_loop E a [Suc k..<n] ?loc (out @ completed_events a k False) = (Inr (), out')
          \<and> trained out' = trained (out @ completed_events a k False) @ [Suc k..<Suc (Suc k + d)]"
  proof (rule Suc.IH)
    show "d = nat (P - epochs_without_improvement ?loc)" using Suc.prems(1) nl by simp
    show "epochs_without_improvement ?loc \<le> P" using c nl by simp
    show "\<forall>j\<le>d. quiet E (Suc k + j) \<and> validated a (Suc k + j)
             \<and> \<not> compare a (val_metric_at E (Suc k + j)) (best_val_metric ?loc)"
    proof (intro allI impI)
      fix j assume "j \<le> d"
      then have "Suc j \<le> Suc d" by simp
      with Suc.prems(3) have "quiet E (k + Suc j) \<and> validated a (k + Suc j)
             \<and> \<not> compare a (val_metric_at E (k + Suc j)) (best_val_metric loc)" by blast
      then show "quiet E (Suc k + j) \<and> validated a (Suc k + j)
             \<and> \<not> compare a (val_metric_at E (Suc k + j)) (best_val_metric ?loc)"
        by (simp add: nl)
    qed
    show "Suc k + d < n" using Suc.prems(4) by simp
  qed
  then obtain out' where l: "fit_loop E a [Suc k..<n] ?loc (out @ completed_events a k False) = (Inr (), out')"
    and t: "trained out' = trained (out @ completed_events a k False) @ [Suc k..<Suc (Suc k + d)]"
    by blast
  have "[k..<Suc (k + Suc d)] = k # [Suc k..<Suc (Suc k + d)]"
    by (simp add: upt_conv_Cons)
  with l t b show ?case unfolding list
    by (simp add: trained_append trained_completed_events)
qed

lemma teardown_quiet:
  assumes "raises E WandbFinish = None" "raises E WriteConfigYaml = None"
  shows "teardown E a out =
     (Inr (), out @ (if log_wandb a then [WandbFinish] else [])
                  @ [Print ''Training has finished'', WriteConfigYaml])"
  using assms by (simp add: teardown_def and_then_def when_do_def call_def print_def ret_def)

lemma upt_three_parts: "[0..<e] @ [e] @ [Suc e..<e + m + 2] = [0..<e + m + 2]"
proof -
  have "[0..<e + (m + 2)] = [0..<e] @ [e..<e + (m + 2)]"
    by (rule upt_add_eq_append) simp
  also have "[e..<e + (m + 2)] = e # [Suc e..<e + (m + 2)]"
    by (rule upt_conv_Cons) simp
  finally show ?thesis by (simp add: add.assoc)
qed

text \<open>
  C1. Take a run with patience \<open>P \<ge> 0\<close> that enters epoch \<open>e\<close>, where the metric improves,
  and let the next \<open>P + 1\<close> epochs all exist, be validated, raise nothing and fail to
  improve on the metric of \<open>e\<close>. Then \<open>fit\<close> returns normally (the tear-down raising
  nothing) and the epochs trained are exactly \<open>0, ..., e + P + 1\<close>: the loop has stopped
  at epoch \<open>e + P + 1\<close>.
\<close>

theorem early_stopping:
  assumes P: "patience a = Some P" "0 \<le> P"
    and r: "reach E a e = Some (loc, out)"
    and imp: "compare a (val_metric_at E e) (best_val_metric loc)"
    and ni: "\<forall>j \<in> {1..nat P + 1}. \<not> compare a (val_metric_at E (e + j)) (val_metric_at E e)"
    and val: "\<forall>j \<le> nat P + 1. validated a (e + j)"
    and q: "\<forall>j \<le> nat P + 1. quiet E (e + j)"
    and td: "raises E WandbFinish = None" "raises E WriteConfigYaml = None"
    and n: "int (e + nat P + 1) < num_epochs a"
  shows "\<exists>tr. fit E a [] = (Inr (), tr) \<and> trained tr = [0..<e + nat P + 2]"
proof -
  let ?n = "nat (num_epochs a)"
  from n have en: "e + nat P + 1 < ?n" by linarith
  then have list: "[e..<?n] = e # [Suc e..<?n]" by (simp add: upt_conv_Cons)
  from q val have qe: "quiet E e" and ve: "validated a e" by (auto dest: spec [of _ 0])
  let ?loc = "next_locals E a e loc"
  let ?out = "out @ completed_events a e True"
  have nl: "best_val_metric ?loc = val_metric_at E e" "epochs_without_improvement ?loc = 0"
    using ve imp by (simp_all add: next_locals_def)
  have nc: "next_ctrl E a e loc = Continue" using imp by (simp add: next_ctrl_def)
  from fit_body_quiet [OF qe, of a loc out] ve imp nc
  have b: "fit_body E a e loc out = (Inr (Continue, ?loc), ?out)" by simp
  have "\<exists>out'. fit_loop E a [Suc e..<?n] ?loc ?out = (Inr (), out')
          \<and> trained out' = trained ?out @ [Suc e..<Suc (Suc e + nat P)]"
  proof (rule stall_breaks [OF P(1)])
    show "nat P = nat (P - epochs_without_improvement ?loc)" by (simp add: nl)
    show "epochs_without_improvement ?loc \<le> P" using P(2) by (simp add: nl)
    show "\<forall>j\<le>nat P. quiet E (Suc e + j) \<and> validated a (Suc e + j)
             \<and> \<not> compare a (val_metric_at E (Suc e + j)) (best_val_metric ?loc)"
    proof (intro allI impI)
      fix j assume "j \<le> nat P"
      then have "Suc j \<le> nat P + 1" "Suc j \<in> {1..nat P + 1}" by auto
      with q val ni have "quiet E (e + Suc j)" "validated a (e + Suc j)"
        "\<not> compare a (val_metric_at E (e + Suc j)) (val_metric_at E e)" by blast+
      then show "quiet E (Suc e + j) \<and> validated a (Suc e + j)
             \<and> \<not> compare a (val_metric_at E (Suc e + j)) (best_val_metric ?loc)"
        by (simp add: nl)
    qed
    show "Suc e + nat P < ?n" using en by simp
  qed
  then obtain out' where l: "fit_loop E a [Suc e..<?n] ?loc ?out = (Inr (), out')"
    and t: "trained out' = trained ?out @ [Suc e..<Suc (Suc e + nat P)]" by blast
  from reach_trace [OF r] have "trained out = [0..<e]" by simp
  with t have t': "trained out' = [0..<e] @ [e] @ [Suc e..<e + nat P + 2]"
    by (simp add: trained_append trained_completed_events)
  with upt_three_parts [of e "nat P"] have t'': "trained out' = [0..<e + nat P + 2]" by simp
  from r en have "fit_loop E a [0..<?n] (initial_locals a) [Print ''Training has started'']
      = fit_loop E a [e..<?n] loc out" by (intro loop_from_reach) auto
  also have "\<dots> = (Inr (), out')" unfolding list using b l by simp
  finally have loop: "fit_loop E a [0..<?n] (initial_locals a) [Print ''Training has started'']
      = (Inr (), out')" .
  have "fit E a [] = (Inr (), out' @ (if log_wandb a then [WandbFinish] else [])
                  @ [Print ''Training has finished'', WriteConfigYaml])"
    using loop teardown_quiet [OF td, of a out']
    by (simp add: fit_def and_then_def print_def except_KeyboardInterrupt_def)
  with t'' show ?thesis by (simp add: trained_append)
qed


theorem early_stopping_witness:
  "\<exists>tr. fit calm example_args [] = (Inr (), tr) \<and> trained tr = [0..<0 + nat 1 + 2]"
proof (rule early_stopping)
  show "patience example_args = Some 1" by (simp add: example_args_def)
  show "(0::int) \<le> 1" by simp
  show "reach calm example_args 0 = Some (initial_locals example_args, [Print ''Training has started''])"
    by simp
  show "compare example_args (val_metric_at calm 0) (best_val_metric (initial_locals example_args))"
    by (simp add: compare_def py_gt_def example_args_def calm_def initial_locals_def)
  show "\<forall>j \<in> {1..nat 1 + 1}. \<not> compare example_args (val_metric_at calm (0 + j)) (val_metric_at calm 0)"
    by (simp add: compare_def py_gt_def example_args_def calm_def)
  show "\<forall>j \<le> nat 1 + 1. validated example_args (0 + j)"
    by (simp add: validated_def example_args_def)
  show "\<forall>j \<le> nat 1 + 1. quiet calm (0 + j)" by (simp add: quiet_def calm_def)
  show "raises calm WandbFinish = None" by (simp add: calm_def)
  show "raises calm WriteConfigYaml = None" by (simp add: calm_def)
  show "int (0 + nat 1 + 1) < num_epochs example_args" by (simp add: example_args_def)
qed

section \<open>Profiling\<close>

lemma silentD: "silent m \<Longrightarrow> m out = (r, out') \<Longrightarrow> \<exists>evs. out' = out @ evs \<and> trained evs = []"
  unfolding silent_def by blast

lemma silent_call: "trained [ev] = [] \<Longrightarrow> silent (call E ev)"
  by (auto simp: silent_def call_def split: option.splits)

lemma silent_print: "silent (print msg)"
  by (auto simp: silent_def print_def)

lemma silent_ret: "silent (ret x)"
  by (auto simp: silent_def ret_def)

lemma silent_raise: "silent (raise e)"
  by (auto simp: silent_def raise_def)

lemma silent_seq:
  assumes "silent m" "\<And>x. silent (f x)"
  shows "silent (and_then m f)"
  unfolding silent_def
proof (intro allI impI)
  fix out r out'
  assume run: "and_then m f out = (r, out')"
  obtain r1 out1 where m: "m out = (r1, out1)" by (cases "m out")
  from silentD [OF assms(1) m] obtain evs where e1: "out1 = out @ evs" "trained evs = []" by blast
  show "\<exists>evs. out' = out @ evs \<and> trained evs = []"
  proof (cases r1)
    case (Inl e)
    with m run have "out' = out1" by (simp add: and_then_def)
    with e1 show ?thesis by blast
  next
    case (Inr x)
    with m run have "f x out1 = (r, out')" by (simp add: and_then_def)
    from silentD [OF assms(2) this] obtain evs2 where "out' = out1 @ evs2" "trained evs2 = []"
      by blast
    with e1 show ?thesis by (intro exI [of _ "evs @ evs2"]) (simp add: trained_append)
  qed
qed

lemma silent_sanity_try: 
  assumes "silent body" shows "silent (sanity_try msg body)"
  unfolding silent_def
proof (intro allI impI)
  fix out r out'
  assume run: "sanity_try msg body out = (r, out')"
  obtain r1 out1 where m: "body out = (r1, out1)" by (cases "body out")
  from silentD [OF assms m] obtain evs where e1: "out1 = out @ evs" "trained evs = []" by blast
  from run m have "out' = out1 \<or> out' = out1 @ [Print msg]"
    by (auto simp: sanity_try_def split: sum.splits if_splits)
  with e1 show "\<exists>evs. out' = out @ evs \<and> trained evs = []"
    by (auto simp: trained_append intro: exI [of _ "evs @ [Print msg]"])
qed

lemma silent_apply_perf_funcs: "silent (apply_perf_funcs E idxs)"
  by (induction idxs) (auto intro!: silent_ret silent_seq silent_call)

lemma silent_setup_dataset: "silent (setup_dataset E a)"
  unfolding setup_dataset_def
  by (intro silent_seq silent_call) (simp_all add: silent_ret silent_raise)

lemma silent_setup_training: "silent (setup_training E a)"
  unfolding setup_training_def
  by (intro silent_seq silent_sanity_try silent_call silent_apply_perf_funcs)
     (auto intro: silent_ret silent_raise split: option.splits)

lemma silent_init: "silent (MultiTrainer_init E a)"
  unfolding MultiTrainer_init_def
  by (intro silent_seq silent_print silent_call silent_setup_dataset silent_setup_training silent_ret)
     simp_all

lemma and_then_Inr:
  "and_then m f out = (Inr y, out') \<longleftrightarrow> (\<exists>x out1. m out = (Inr x, out1) \<and> f x out1 = (Inr y, out'))"
  by (cases "m out") (auto simp: and_then_def split: sum.splits)

lemma setup_training_Inr:
  "setup_training E a out = (Inr a', out') \<Longrightarrow> a' = (if profile a then a\<lparr>num_epochs := 2\<rparr> else a)"
  by (auto simp: setup_training_def and_then_Inr ret_def raise_def split: option.splits)

lemma init_Inr:
  "MultiTrainer_init E a out = (Inr a', out') \<Longrightarrow> a' = (if profile a then a\<lparr>num_epochs := 2\<rparr> else a)"
  by (auto simp: MultiTrainer_init_def and_then_Inr ret_def dest: setup_training_Inr)

lemma fit_trained:
  assumes "fit E a out = (r, tr)"
  shows "length (trained tr) \<le> length (trained out) + nat (num_epochs a)"
proof -
  from fit_trace [OF assms] obtain rl trl td where
    loop: "fit_loop E a [0..<nat (num_epochs a)] (initial_locals a)
             (out @ [Print ''Training has started'']) = (rl, trl)"
    and tr: "tr = trl @ td" and td: "\<forall>ev \<in> set td. epoch_of ev = None" by blast
  from loop_later [OF loop] obtain evs where "trl = (out @ [Print ''Training has started'']) @ evs"
    and "length (trained evs) \<le> length [0..<nat (num_epochs a)]" by blast
  with tr no_epoch_trained [OF td] show ?thesis by (simp add: trained_append)
qed

text \<open>
  C9. With \<open>profile\<close> set, whenever setting up succeeds the configuration it leaves has
  \<open>num_epochs = 2\<close>, and the whole program trains at most two epochs, whatever
  \<open>num_epochs\<close> was configured and whatever the collaborators do.
\<close>

theorem profile_runs_two_epochs:
  assumes "profile a"
  shows "(\<forall>a' out'. MultiTrainer_init E a [] = (Inr a', out') \<longrightarrow> num_epochs a' = 2)
       \<and> length (trained (snd (main E a []))) \<le> 2"
proof
  show "\<forall>a' out'. MultiTrainer_init E a [] = (Inr a', out') \<longrightarrow> num_epochs a' = 2"
    using assms by (auto dest: init_Inr)
  obtain r1 out1 where i: "MultiTrainer_init E a [] = (r1, out1)" by (cases "MultiTrainer_init E a []")
  from silentD [OF silent_init i] have t1: "trained out1 = []" by auto
  show "length (trained (snd (main E a []))) \<le> 2"
  proof (cases r1)
    case (Inl e)
    with i t1 show ?thesis by (simp add: main_def and_then_def)
  next
    case (Inr a')
    with i assms have n: "num_epochs a' = 2" by (auto dest: init_Inr)
    obtain r tr where f: "fit E a' out1 = (r, tr)" by (cases "fit E a' out1")
    from fit_trained [OF f] t1 n have "length (trained tr) \<le> 2" by simp
    with i Inr f show ?thesis by (simp add: main_def and_then_def)
  qed
qed


theorem profile_runs_two_epochs_witness:
  "MultiTrainer_init calm (example_args\<lparr>profile := True\<rparr>) [] =
     (Inr (example_args\<lparr>profile := True, num_epochs := 2\<rparr>),
      [Print ''Setting up the experiment...'', SetupExperiment, GetDatasets, SetupModel,
       FetchValidBatch, ApplyModel, ApplyPerfFunc 0, Print ''Done setting up.''])
   \<and> num_epochs (example_args\<lparr>profile := True, num_epochs := 2\<rparr>) = 2
   \<and> length (trained (snd (main calm (example_args\<lparr>profile := True\<rparr>) []))) \<le> 2"
proof -
  have p: "profile (example_args\<lparr>profile := True\<rparr>)" by simp
  have i: "MultiTrainer_init calm (example_args\<lparr>profile := True\<rparr>) [] =
     (Inr (example_args\<lparr>profile := True, num_epochs := 2\<rparr>),
      [Print ''Setting up the experiment...'', SetupExperiment, GetDatasets, SetupModel,
       FetchValidBatch, ApplyModel, ApplyPerfFunc 0, Print ''Done setting up.''])"
    by (simp add: MultiTrainer_init_def setup_dataset_def setup_training_def and_then_def
        print_def call_def ret_def raise_def sanity_try_def num_perf_funcs_def select_optim_def
        calm_def example_args_def)
  from profile_runs_two_epochs [OF p, of calm] i
  show ?thesis by blast
qed

section \<open>Interruption\<close>

text \<open>
  C2, as stated, fails: the interrupt does not wait for the epoch in progress. When
  Ctrl+C arrives during the validation of epoch 1, after its training pass, the run ends
  with the tear-down, and epoch 1 has neither aggregated its metrics, nor saved its log,
  nor written its checkpoint.
\<close>

theorem interrupt_abandons_epoch_counterexample:
  "raises interrupted (ValidateOneEpoch 1) = Some KeyboardInterrupt
   \<and> fit interrupted example_args [] =
       (Inr (), interrupted_trace @ [Print ''Training has finished'', WriteConfigYaml])
   \<and> TrainOneEpoch 1 \<in> set interrupted_trace
   \<and> EndEpoch 1 \<notin> set interrupted_trace
   \<and> SaveLogCsv 1 \<notin> set interrupted_trace
   \<and> SaveCheckpoint 1 \<notin> set interrupted_trace"
  by code_simp

lemma stops_atD:
  "stops_at E m A \<Longrightarrow> m out = (Inl KeyboardInterrupt, out') \<Longrightarrow>
     \<exists>pre ev post. A = pre @ ev # post \<and> raises E ev = Some KeyboardInterrupt \<and> out' = out @ pre"
  unfolding stops_at_def by blast

lemma stops_call: "stops_at E (call E ev) [ev]"
  by (auto simp: stops_at_def call_def split: option.splits)

lemma stops_when: "stops_at E (when_do b (call E ev)) (if b then [ev] else [])"
  by (auto simp: stops_at_def call_def when_do_def ret_def split: option.splits)

lemma stops_ret: "stops_at E (ret x) A"
  by (simp add: stops_at_def ret_def)

lemma stops_validate_due: "stops_at E (validate_due a k) A"
  by (auto simp: stops_at_def validate_due_def ret_def raise_def split: if_splits)

lemma stops_seq:
  assumes "step_of m A V" and "stops_at E m A" and "\<And>x. V x \<Longrightarrow> stops_at E (f x) B"
  shows "stops_at E (and_then m f) (A @ B)"
  unfolding stops_at_def
proof (intro allI impI)
  fix out out'
  assume run: "and_then m f out = (Inl KeyboardInterrupt, out')"
  obtain r1 out1 where m: "m out = (r1, out1)" by (cases "m out")
  show "\<exists>pre ev post. A @ B = pre @ ev # post \<and> raises E ev = Some KeyboardInterrupt
          \<and> out' = out @ pre"
  proof (cases r1)
    case (Inl x)
    with m run have "m out = (Inl KeyboardInterrupt, out')" by (simp add: and_then_def)
    from stops_atD [OF assms(2) this] obtain pre ev post where
      "A = pre @ ev # post" "raises E ev = Some KeyboardInterrupt" "out' = out @ pre" by blast
    then have "A @ B = pre @ ev # (post @ B) \<and> raises E ev = Some KeyboardInterrupt
          \<and> out' = out @ pre" by simp
    then show ?thesis by blast
  next
    case (Inr x)
    with m run have f: "f x out1 = (Inl KeyboardInterrupt, out')" by (simp add: and_then_def)
    from step_of_InrD [OF assms(1)] m Inr have o1: "out1 = out @ A" and "V x" by auto
    from stops_atD [OF assms(3) [OF \<open>V x\<close>] f] obtain pre ev post where
      "B = pre @ ev # post" "raises E ev = Some KeyboardInterrupt" "out' = out1 @ pre" by blast
    with o1 have "A @ B = (A @ pre) @ ev # post \<and> raises E ev = Some KeyboardInterrupt
          \<and> out' = out @ (A @ pre)" by simp
    then show ?thesis by blast
  qed
qed

lemma stops_check_improvement:
  "stops_at E (check_improvement E a k loc)
     (if compare a (val_metric_at E k) (best_val_metric loc) then [SaveBestModel k] else [])"
  by (auto simp: stops_at_def check_improvement_def and_then_def call_def ret_def Let_def
      split: option.splits)

lemma stops_tail:
  "stops_at E (if validated a k
            then and_then (when_do (save_val_imgs a) (call E (SaveValImgs k))) (\<lambda>_. check_improvement E a k loc)
            else ret (Continue, loc))
     (if validated a k
      then (if save_val_imgs a then [SaveValImgs k] else [])
           @ (if compare a (val_metric_at E k) (best_val_metric loc) then [SaveBestModel k] else [])
      else [])"
proof (cases "validated a k")
  case True
  have "stops_at E (and_then (when_do (save_val_imgs a) (call E (SaveValImgs k))) (\<lambda>_. check_improvement E a k loc))
     ((if save_val_imgs a then [SaveValImgs k] else [])
           @ (if compare a (val_metric_at E k) (best_val_metric loc) then [SaveBestModel k] else []))"
    by (rule stops_seq [OF step_when stops_when stops_check_improvement])
  with True show ?thesis by simp
next
  case False
  then show ?thesis by (simp add: stops_ret)
qed

lemma stops_fit_body:
  "stops_at E (fit_body E a k loc)
     (completed_events a k (compare a (val_metric_at E k) (best_val_metric loc)))"
proof -
  have "stops_at E (fit_body E a k loc)
     ([TrainOneEpoch k] @ [] @ (if validated a k then [ValidateOneEpoch k] else [])
      @ [EndEpoch k] @ [SetPostfix k] @ [SaveLogCsv k] @ [SavePlotsPng k]
      @ (if log_wandb a then [WandbLog k] else [])
      @ [SaveCheckpoint k]
      @ (if copy_due a k then [SaveCheckpointCopy k] else [])
      @ (if validated a k
         then (if save_val_imgs a then [SaveValImgs k] else [])
              @ (if compare a (val_metric_at E k) (best_val_metric loc) then [SaveBestModel k] else [])
         else []))"
    unfolding fit_body_def
    apply (rule stops_seq [OF step_call stops_call])
    apply (rule stops_seq [OF step_validate_due stops_validate_due])
    apply (erule ssubst)
    apply (rule stops_seq [OF step_when stops_when])
    apply (rule stops_seq [OF step_call stops_call])
    apply (rule stops_seq [OF step_call stops_call])
    apply (rule stops_seq [OF step_call stops_call])
    apply (rule stops_seq [OF step_call stops_call])
    apply (rule stops_seq [OF step_when stops_when])
    apply (rule stops_seq [OF step_call stops_call])
    apply (rule stops_seq [OF step_when stops_when])
    apply (rule stops_tail)
    done
  then show ?thesis by (simp add: completed_events_def)
qed

text \<open>
  C2, amended. When the body of the loop raises \<open>KeyboardInterrupt\<close> in epoch \<open>e\<close>, it was
  raised by one of the calls of the epoch, \<open>ev\<close>; the run has completed what it had when
  the epoch began and the calls of the epoch before \<open>ev\<close>, and nothing of \<open>ev\<close> and the
  calls after it; then comes the tear-down only (\<open>wandb.finish()\<close> when \<open>log_wandb\<close> is
  set, the final line, the configuration file), and \<open>fit\<close> returns normally.
\<close>

theorem interrupt_proceeds_to_teardown:
  assumes r: "reach E a e = Some (loc, out)" and e: "int e < num_epochs a"
    and b: "fit_body E a e loc out = (Inl KeyboardInterrupt, out')"
    and td: "raises E WandbFinish = None" "raises E WriteConfigYaml = None"
  shows "\<exists>pre ev post.
           completed_events a e (compare a (val_metric_at E e) (best_val_metric loc))
             = pre @ ev # post
         \<and> raises E ev = Some KeyboardInterrupt
         \<and> fit E a [] = (Inr (), out @ pre @ (if log_wandb a then [WandbFinish] else [])
                                  @ [Print ''Training has finished'', WriteConfigYaml])"
proof -
  let ?n = "nat (num_epochs a)"
  from e have en: "e < ?n" by linarith
  then have list: "[e..<?n] = e # [Suc e..<?n]" by (rule upt_conv_Cons)
  from r en have "fit_loop E a [0..<?n] (initial_locals a) [Print ''Training has started'']
      = fit_loop E a [e..<?n] loc out" by (intro loop_from_reach) auto
  also have "\<dots> = (Inl KeyboardInterrupt, out')" unfolding list using b by simp
  finally have loop: "fit_loop E a [0..<?n] (initial_locals a) [Print ''Training has started'']
      = (Inl KeyboardInterrupt, out')" .
  have f: "fit E a [] = (Inr (), out' @ (if log_wandb a then [WandbFinish] else [])
                               @ [Print ''Training has finished'', WriteConfigYaml])"
    using loop teardown_quiet [OF td, of a out']
    by (simp add: fit_def and_then_def print_def except_KeyboardInterrupt_def)
  from stops_atD [OF stops_fit_body b] obtain pre ev post where
    "completed_events a e (compare a (val_metric_at E e) (best_val_metric loc)) = pre @ ev # post"
    "raises E ev = Some KeyboardInterrupt" "out' = out @ pre" by blast
  with f show ?thesis by auto
qed

theorem interrupt_proceeds_to_teardown_witness:
  "\<exists>pre ev post.
     completed_events example_args 1
       (compare example_args (val_metric_at interrupted 1)
          (best_val_metric \<lparr>best_val_metric = Fin (1/2), epochs_without_improvement = 0\<rparr>))
       = pre @ ev # post
   \<and> raises interrupted ev = Some KeyboardInterrupt
   \<and> fit interrupted example_args [] =
       (Inr (), take 9 interrupted_trace @ pre @ (if log_wandb example_args then [WandbFinish] else [])
                @ [Print ''Training has finished'', WriteConfigYaml])"
proof (rule interrupt_proceeds_to_teardown)
  show "reach interrupted example_args 1 =
          Some (\<lparr>best_val_metric = Fin (1/2), epochs_without_improvement = 0\<rparr>,
                take 9 interrupted_trace)"
    by code_simp
  show "int 1 < num_epochs example_args" by (simp add: example_args_def)
  show "fit_body interrupted example_args 1
          \<lparr>best_val_metric = Fin (1/2), epochs_without_improvement = 0\<rparr>
          (take 9 interrupted_trace) = (Inl KeyboardInterrupt, interrupted_trace)"
    by code_simp
  show "raises interrupted WandbFinish = None" by (simp add: interrupted_def calm_def)
  show "raises interrupted WriteConfigYaml = None" by (simp add: interrupted_def calm_def)
qed

end
